theory Spec2Isabelle
  imports Complex_Main "HOL-Library.Word"
begin

section \<open>Data model (types.ts and the state of the useGeminiLive hook)\<close>

datatype StreamStatus = DISCONNECTED | CONNECTING | CONNECTED | ERROR

datatype Sender = User | Model

text \<open>
  A transcript segment. The source builds \<open>id\<close> as \<open>Date.now().toString()\<close> and
  \<open>timestamp\<close> as \<open>new Date()\<close>; both are the clock reading at the moment the segment
  is created, which the model receives as a parameter.
\<close>

record TranscriptSegment =
  seg_id :: nat
  sender :: Sender
  seg_text :: string
  timestamp :: nat
  isPartial :: bool

section \<open>Transcript aggregation\<close>

subsection \<open>Segment merging: the updater passed to setSegments\<close>

text \<open>
  The two handlers of \<open>onmessage\<close> (user and model transcription) pass the same updater
  to \<open>setSegments\<close>, up to the sender literal. \<open>prev[prev.length - 1]\<close> is
  \<open>undefined\<close> on the empty array, which the test \<open>last && ...\<close> rejects.
\<close>

definition appendFragment ::
  "Sender \<Rightarrow> string \<Rightarrow> nat \<Rightarrow> TranscriptSegment list \<Rightarrow> TranscriptSegment list" where
  "appendFragment who txt now prev =
     (if prev \<noteq> [] \<and> sender (last prev) = who \<and> isPartial (last prev)
      then prev[length prev - 1 := (last prev)\<lparr>seg_text := seg_text (last prev) @ txt\<rparr>]
      else prev @ [\<lparr>seg_id = now, sender = who, seg_text = txt, timestamp = now,
                     isPartial = True\<rparr>])"

definition finalizeSegments :: "TranscriptSegment list \<Rightarrow> TranscriptSegment list" where
  "finalizeSegments prev = map (\<lambda>s. s\<lparr>isPartial := False\<rparr>) prev"

subsection \<open>Debounced transcript buffer\<close>

text \<open>
  \<open>bufferAccumulatorRef\<close>, \<open>bufferDebounceTimerRef\<close> (a pending timer or null) and the
  React state \<open>currentTranscriptBuffer\<close>.
\<close>

record transcript_buffer =
  bufferAccumulatorRef :: string
  bufferDebounceTimerRef :: bool
  currentTranscriptBuffer :: string

definition queueTranscriptUpdate :: "string \<Rightarrow> 'a transcript_buffer_scheme \<Rightarrow> 'a transcript_buffer_scheme" where
  "queueTranscriptUpdate txt st =
     (let st1 = st\<lparr>bufferAccumulatorRef := bufferAccumulatorRef st @ '' '' @ txt\<rparr>
      in if \<not> bufferDebounceTimerRef st1
         then st1\<lparr>bufferDebounceTimerRef := True\<rparr>
         else st1)"

text \<open>The body of the 200 ms timer callback scheduled by \<open>queueTranscriptUpdate\<close>.\<close>

definition flushCallback :: "'a transcript_buffer_scheme \<Rightarrow> 'a transcript_buffer_scheme" where
  "flushCallback st =
     (let textToFlush = bufferAccumulatorRef st;
          st1 = (if textToFlush \<noteq> []
                 then st\<lparr>currentTranscriptBuffer := currentTranscriptBuffer st @ textToFlush,
                         bufferAccumulatorRef := []\<rparr>
                 else st)
      in st1\<lparr>bufferDebounceTimerRef := False\<rparr>)"

text \<open>The timer fires only when one is pending.\<close>

definition debounceTimerFires :: "'a transcript_buffer_scheme \<Rightarrow> 'a transcript_buffer_scheme" where
  "debounceTimerFires st = (if bufferDebounceTimerRef st then flushCallback st else st)"

fun queueAll :: "string list \<Rightarrow> 'a transcript_buffer_scheme \<Rightarrow> 'a transcript_buffer_scheme" where
  "queueAll [] st = st"
| "queueAll (f # fs) st = queueAll fs (queueTranscriptUpdate f st)"

section \<open>Double-precision arithmetic\<close>

text \<open>
  JavaScript numbers are IEEE 754 binary64 values: every arithmetic operation and
  \<open>Math.sqrt\<close> return the exact result rounded to the nearest value with a 53-bit
  significand, ties to the even significand. \<open>fl64\<close> is that rounding on the reals;
  \<open>binade x\<close> is the exponent \<open>e\<close> with \<open>2^e \<le> |x| < 2^(e+1)\<close>. The exponent range
  (overflow to \<open>Infinity\<close>, gradual underflow) is not modelled: on the samples of a
  Float32Array no operation below leaves the normal range of binary64, and in
  \<open>downsampleTo16k\<close> a quotient outside it makes the allocation fail or the output
  empty, in the code as in the model.
\<close>

definition round_ties_even :: "real \<Rightarrow> int" where
  "round_ties_even r =
     (let f = \<lfloor>r\<rfloor>; d = r - of_int f
      in if d < 1 / 2 then f
         else if 1 / 2 < d then f + 1
         else if even f then f else f + 1)"

definition binade :: "real \<Rightarrow> int" where
  "binade x = \<lfloor>log 2 \<bar>x\<bar>\<rfloor>"

definition fl64 :: "real \<Rightarrow> real" where
  "fl64 x =
     (if x = 0 then 0
      else (let u = 2 powi (binade x - 52)
            in of_int (round_ties_even (x / u)) * u))"

definition fadd :: "real \<Rightarrow> real \<Rightarrow> real" where
  "fadd x y = fl64 (x + y)"

definition fsub :: "real \<Rightarrow> real \<Rightarrow> real" where
  "fsub x y = fl64 (x - y)"

definition fmul :: "real \<Rightarrow> real \<Rightarrow> real" where
  "fmul x y = fl64 (x * y)"

definition fdiv :: "real \<Rightarrow> real \<Rightarrow> real" where
  "fdiv x y = fl64 (x / y)"

definition fsqrt :: "real \<Rightarrow> real" where
  "fsqrt x = fl64 (sqrt x)"

section \<open>Audio utilities (services/audioUtils.ts)\<close>

text \<open>
  A sample is a finite number, modelled as a real. A sample that JavaScript computes as
  \<open>NaN\<close> (an operand read outside a typed array is \<open>undefined\<close>) is \<open>None\<close>.
\<close>

type_synonym sample = "real option"

datatype js_error = RangeError | InvalidCharacterError | SendError

definition PCM_SAMPLE_RATE :: real where
  "PCM_SAMPLE_RATE = 16000"

subsection \<open>Base64 transport encoding\<close>

text \<open>
  \<open>btoa\<close> and \<open>atob\<close> are functions of the browser, not of the repository. They are
  modelled after RFC 4648 and the forgiving-base64 decoder of the WHATWG Infra standard,
  on binary strings, that is strings whose code units are below 256: exactly HOL's
  \<open>char\<close>. (\<open>btoa\<close> throws on any other string, and \<open>String.fromCharCode\<close> of a byte
  never builds one.)
\<close>

definition b64_alphabet :: string where
  "b64_alphabet = ''ABCDEFGHIJKLMNOPQRSTUVWXYZabcdefghijklmnopqrstuvwxyz0123456789+/''"

definition b64_char :: "nat \<Rightarrow> char" where
  "b64_char i = b64_alphabet ! i"

definition b64_index :: "char \<Rightarrow> nat option" where
  "b64_index c = map_of (zip b64_alphabet [0..<64]) c"

text \<open>Three bytes become four 6-bit groups; a tail of one or two bytes is zero-filled.\<close>

fun sextets :: "nat list \<Rightarrow> nat list" where
  "sextets (a # b # c # rest) =
     [a div 4, (a mod 4) * 16 + b div 16, (b mod 16) * 4 + c div 64, c mod 64] @ sextets rest"
| "sextets [a, b] = [a div 4, (a mod 4) * 16 + b div 16, (b mod 16) * 4]"
| "sextets [a] = [a div 4, (a mod 4) * 16]"
| "sextets [] = []"

definition b64_body :: "string \<Rightarrow> string" where
  "b64_body s = map b64_char (sextets (map of_char s))"

definition btoa :: "string \<Rightarrow> string" where
  "btoa s = b64_body s @ replicate ((3 - length s mod 3) mod 3) (CHR ''='')"

text \<open>Four 6-bit groups become three bytes; the spare bits of a tail are discarded.\<close>

fun unsextets :: "nat list \<Rightarrow> nat list" where
  "unsextets (a # b # c # d # rest) =
     [a * 4 + b div 16, (b mod 16) * 16 + c div 4, (c mod 4) * 64 + d] @ unsextets rest"
| "unsextets [a, b, c] = [a * 4 + b div 16, (b mod 16) * 16 + c div 4]"
| "unsextets [a, b] = [a * 4 + b div 16]"
| "unsextets [a] = []"
| "unsextets [] = []"

definition ascii_whitespace :: "char \<Rightarrow> bool" where
  "ascii_whitespace c = (of_char c \<in> {9, 10, 12, 13, 32 :: nat})"

definition strip_padding :: "string \<Rightarrow> string" where
  "strip_padding d =
     (if length d mod 4 = 0 \<and> d \<noteq> [] \<and> last d = CHR ''=''
      then (let d1 = butlast d
            in if d1 \<noteq> [] \<and> last d1 = CHR ''='' then butlast d1 else d1)
      else d)"

definition atob :: "string \<Rightarrow> js_error + string" where
  "atob s =
     (let d = strip_padding (filter (\<lambda>c. \<not> ascii_whitespace c) s)
      in if length d mod 4 = 1 then Inl InvalidCharacterError
         else if \<exists>c \<in> set d. b64_index c = None then Inl InvalidCharacterError
         else Inr (map char_of (unsextets (map (\<lambda>c. the (b64_index c)) d))))"

text \<open>
  \<open>encode\<close>: the loop appends \<open>String.fromCharCode(bytes[i])\<close> for each byte, then
  \<open>btoa\<close>. \<open>decode\<close>: \<open>atob\<close>, then each \<open>charCodeAt(i)\<close> is stored into a Uint8Array.
\<close>

definition encode :: "8 word list \<Rightarrow> string" where
  "encode bytes = btoa (map (\<lambda>b. char_of (unat b)) bytes)"

definition decode :: "string \<Rightarrow> js_error + 8 word list" where
  "decode base64 =
     (case atob base64 of
        Inl e \<Rightarrow> Inl e
      | Inr binaryString \<Rightarrow> Inr (map (\<lambda>c. (of_nat (of_char c) :: 8 word)) binaryString))"

subsection \<open>createBlob: soft clip, 16-bit PCM, base64\<close>

text \<open>
  A store into an Int16Array truncates towards zero and wraps modulo \<open>2^16\<close>; \<open>NaN\<close> is
  stored as 0.
\<close>

definition js_trunc :: "real \<Rightarrow> int" where
  "js_trunc x = (if x < 0 then \<lceil>x\<rceil> else \<lfloor>x\<rfloor>)"

definition toInt16 :: "sample \<Rightarrow> 16 word" where
  "toInt16 v = (case v of None \<Rightarrow> 0 | Some x \<Rightarrow> word_of_int (js_trunc x))"

text \<open>
  \<open>Math.tanh\<close> is a function of the engine, which the language standard leaves
  implementation-approximated: it is the parameter \<open>mtanh\<close>. The product with
  \<open>0x8000\<close> or \<open>0x7FFF\<close> is a double multiplication.
\<close>

definition pcm_sample :: "(real \<Rightarrow> real) \<Rightarrow> sample \<Rightarrow> 16 word" where
  "pcm_sample mtanh d =
     (let sample = map_option mtanh d
      in toInt16 (case sample of
                    None \<Rightarrow> None
                  | Some s \<Rightarrow> Some (if s < 0 then fmul s 32768 else fmul s 32767)))"

definition createBlob_int16 :: "(real \<Rightarrow> real) \<Rightarrow> sample list \<Rightarrow> 16 word list" where
  "createBlob_int16 mtanh samples = map (pcm_sample mtanh) samples"

text \<open>
  \<open>new Uint8Array(int16.buffer)\<close>: the bytes of each sample in the platform's byte
  order, taken as little-endian (low byte first).
\<close>

definition int16_bytes :: "16 word \<Rightarrow> 8 word list" where
  "int16_bytes w = [ucast w, ucast (drop_bit 8 w)]"

record blob =
  blob_data :: string
  mimeType :: string

definition createBlob :: "(real \<Rightarrow> real) \<Rightarrow> sample list \<Rightarrow> blob" where
  "createBlob mtanh samples =
     \<lparr>blob_data = encode (concat (map int16_bytes (createBlob_int16 mtanh samples))),
      mimeType = ''audio/pcm;rate=16000''\<rparr>"

subsection \<open>downsampleTo16k: linear interpolation\<close>

text \<open>A read of a typed array: \<open>undefined\<close> outside \<open>0 .. length - 1\<close>.\<close>

definition readSample :: "real list \<Rightarrow> int \<Rightarrow> real option" where
  "readSample buffer k =
     (if 0 \<le> k \<and> k < int (length buffer) then Some (buffer ! nat k) else None)"

text \<open>
  \<open>inputIndex = i * ratio\<close> is a double product; \<open>Math.floor\<close> and \<open>Math.ceil\<close> are
  exact.
\<close>

definition inputIndex :: "real \<Rightarrow> nat \<Rightarrow> real" where
  "inputIndex ratio i = fmul (real i) ratio"

definition indexFloor :: "real \<Rightarrow> nat \<Rightarrow> int" where
  "indexFloor ratio i = \<lfloor>inputIndex ratio i\<rfloor>"

definition indexCeil :: "nat \<Rightarrow> real \<Rightarrow> nat \<Rightarrow> int" where
  "indexCeil len ratio i = min \<lceil>inputIndex ratio i\<rceil> (int len - 1)"

text \<open>
  The interpolated value \<open>buffer[indexFloor] * (1 - weight) + buffer[indexCeil] * weight\<close>
  is kept exact: the roundings of this expression and of the store into the
  Float32Array result are not modelled.
\<close>

definition lerpSample :: "real list \<Rightarrow> real \<Rightarrow> nat \<Rightarrow> sample" where
  "lerpSample buffer ratio i =
     (let weight = fsub (inputIndex ratio i) (of_int (indexFloor ratio i))
      in case (readSample buffer (indexFloor ratio i),
               readSample buffer (indexCeil (length buffer) ratio i)) of
           (Some a, Some b) \<Rightarrow> Some (a * (1 - weight) + b * weight)
         | _ \<Rightarrow> None)"

text \<open>
  \<open>ratio = inputRate / PCM_SAMPLE_RATE\<close> and \<open>buffer.length / ratio\<close> are double
  quotients. \<open>Math.round\<close> rounds its double argument to the nearest integer, halves
  up, as \<open>round\<close> does. \<open>new Float32Array(newLength)\<close> throws RangeError for a negative
  length and for a length that the engine cannot allocate: \<open>maxLength\<close> is the largest
  length it can, a parameter of the model below \<open>2^48\<close> (no engine holds \<open>2^48\<close>
  floats, a pebibyte). With \<open>ratio = 0\<close> the quotient is \<open>Infinity\<close> (the allocation
  throws) or, for the empty buffer, \<open>NaN\<close> (length 0).
\<close>

type_synonym alloc_limit = "48 word"

definition newLength :: "alloc_limit \<Rightarrow> nat \<Rightarrow> real \<Rightarrow> js_error + nat" where
  "newLength maxLength len inputRate =
     (let ratio = fdiv inputRate PCM_SAMPLE_RATE
      in if ratio = 0 then (if len = 0 then Inr 0 else Inl RangeError)
         else (let n = round (fdiv (real len) ratio)
               in if n < 0 \<or> int (unat maxLength) < n then Inl RangeError
                  else Inr (nat n)))"

definition downsampleTo16k ::
  "alloc_limit \<Rightarrow> real list \<Rightarrow> real \<Rightarrow> js_error + sample list" where
  "downsampleTo16k maxLength buffer inputRate =
     (if inputRate = PCM_SAMPLE_RATE then Inr (map Some buffer)
      else (case newLength maxLength (length buffer) inputRate of
              Inl e \<Rightarrow> Inl e
            | Inr n \<Rightarrow>
                Inr (map (lerpSample buffer (fdiv inputRate PCM_SAMPLE_RATE)) [0..<n])))"

subsection \<open>Noise gate (the first part of onaudioprocess)\<close>

text \<open>
  The loop adds the double product \<open>inputData[i] * inputData[i]\<close> to \<open>sumSquares\<close>, a
  double sum; the quotient by the length is rounded as well, and \<open>Math.sqrt\<close> is the
  correctly rounded square root, as engines compute it with the processor's
  instruction. The quotient is \<open>NaN\<close> for the empty block, and \<open>NaN < threshold\<close> is
  false.
\<close>

definition sumSquares :: "real list \<Rightarrow> real" where
  "sumSquares inputData = foldl (\<lambda>s x. fadd s (fmul x x)) 0 inputData"

definition blockRms :: "real list \<Rightarrow> real option" where
  "blockRms inputData =
     (if inputData = [] then None
      else Some (fsqrt (fdiv (sumSquares inputData) (real (length inputData)))))"

definition noiseGate :: "real \<Rightarrow> real list \<Rightarrow> real list" where
  "noiseGate threshold inputData =
     (case blockRms inputData of
        Some rms \<Rightarrow> if rms < threshold then replicate (length inputData) 0 else inputData
      | None \<Rightarrow> inputData)"

text \<open>
  The RMS in the words of the specification: the square root of the mean of squares,
  computed exactly.
\<close>

definition rms_spec :: "real list \<Rightarrow> real" where
  "rms_spec xs = sqrt ((\<Sum>x\<leftarrow>xs. x\<^sup>2) / real (length xs))"

section \<open>Session controller (the useGeminiLive hook)\<close>

text \<open>
  The React state and the refs of the hook. A ref that holds a handle is modelled by
  whether the handle is present. \<open>reconnectTimers\<close> counts the pending
  \<open>setTimeout(..., 1500)\<close> callbacks of \<open>onerror\<close>, \<open>sessionsOpened\<close> the calls of
  \<open>ai.live.connect\<close> that resolved, and \<open>sentFrames\<close> records the payloads that
  \<open>session.sendRealtimeInput\<close> accepted.
\<close>

record hook_state = transcript_buffer +
  status :: StreamStatus
  segments :: "TranscriptSegment list"
  analyser :: bool
  errorMessage :: "string option"
  isReconnecting :: bool
  audioContextRef :: bool
  streamRef :: bool
  systemStreamRef :: bool
  processorRef :: bool
  sourceRef :: bool
  systemSourceRef :: bool
  sessionRef :: bool
  audioSourcesRef :: nat
  isLiveRef :: bool
  shouldReconnectRef :: bool
  reconnectTimers :: nat
  sessionsOpened :: nat
  sentFrames :: "blob list"

definition initial_state :: hook_state where
  "initial_state =
     \<lparr>bufferAccumulatorRef = [], bufferDebounceTimerRef = False,
      currentTranscriptBuffer = [],
      status = DISCONNECTED, segments = [], analyser = False, errorMessage = None,
      isReconnecting = False, audioContextRef = False, streamRef = False,
      systemStreamRef = False, processorRef = False, sourceRef = False,
      systemSourceRef = False, sessionRef = False, audioSourcesRef = 0,
      isLiveRef = False, shouldReconnectRef = False, reconnectTimers = 0,
      sessionsOpened = 0, sentFrames = []\<rparr>"

definition stopAudioPipeline :: "hook_state \<Rightarrow> hook_state" where
  "stopAudioPipeline st =
     st\<lparr>isLiveRef := False,
        bufferDebounceTimerRef := False,
        bufferAccumulatorRef := [],
        audioSourcesRef := 0,
        processorRef := False,
        sourceRef := False,
        systemSourceRef := False,
        streamRef := False,
        systemStreamRef := False,
        audioContextRef := False,
        analyser := False\<rparr>"

text \<open>An exception of \<open>sessionRef.current.close()\<close> is caught and logged.\<close>

definition disconnect :: "hook_state \<Rightarrow> hook_state" where
  "disconnect st =
     (let st1 = st\<lparr>shouldReconnectRef := False, isLiveRef := False, isReconnecting := False\<rparr>;
          st2 = (if sessionRef st1 then st1\<lparr>sessionRef := False\<rparr> else st1)
      in (stopAudioPipeline st2)\<lparr>status := DISCONNECTED\<rparr>)"

text \<open>
  The display stream of the optional system-audio capture: none (not enabled, or
  \<open>getDisplayMedia\<close> failed, which is caught), a stream without an audio track, or a
  stream with one.
\<close>

datatype system_capture = NoSystemStream | SystemStreamSilent | SystemStreamAudio

text \<open>
  What the environment answers during the \<open>try\<close> block of \<open>connect\<close>: everything
  succeeds, \<open>getUserMedia\<close> throws NotAllowedError, or something else throws, before
  or after \<open>ai.live.connect\<close> resolved. The awaits of \<open>connect\<close> are run to completion
  in one step: no other callback is interleaved with the setup.
\<close>

datatype setup_outcome = SetupOk system_capture | MicDenied | SetupFailed bool

definition setupFailure :: "string \<Rightarrow> hook_state \<Rightarrow> hook_state" where
  "setupFailure msg st = stopAudioPipeline (st\<lparr>errorMessage := Some msg, status := ERROR\<rparr>)"

definition connect :: "string option \<Rightarrow> setup_outcome \<Rightarrow> hook_state \<Rightarrow> hook_state" where
  "connect apiKey env st =
     (if apiKey = None \<or> apiKey = Some []
      then st\<lparr>errorMessage := Some ''API Key is missing.''\<rparr>
      else
        (let st1 = st\<lparr>isLiveRef := True, shouldReconnectRef := False,
                       errorMessage := None, status := CONNECTING\<rparr>;
             st2 = st1\<lparr>audioContextRef := True\<rparr>
         in case env of
              MicDenied \<Rightarrow> setupFailure ''Microphone permission denied.'' st2
            | SetupFailed opened \<Rightarrow>
                setupFailure ''Failed to start session.''
                  (if opened
                   then st2\<lparr>streamRef := True, sessionRef := True,
                            sessionsOpened := sessionsOpened st2 + 1\<rparr>
                   else st2)
            | SetupOk sys \<Rightarrow>
                st2\<lparr>streamRef := True, systemStreamRef := (sys \<noteq> NoSystemStream),
                    sessionRef := True, sessionsOpened := sessionsOpened st2 + 1,
                    analyser := True, sourceRef := True,
                    systemSourceRef := (sys = SystemStreamAudio), processorRef := True\<rparr>))"

definition onopen :: "hook_state \<Rightarrow> hook_state" where
  "onopen st =
     (if \<not> isLiveRef st then st
      else st\<lparr>status := CONNECTED, isReconnecting := False\<rparr>)"

definition onclose :: "hook_state \<Rightarrow> hook_state" where
  "onclose st =
     (if shouldReconnectRef st then st
      else stopAudioPipeline (st\<lparr>status := DISCONNECTED\<rparr>))"

definition onerror :: "hook_state \<Rightarrow> hook_state" where
  "onerror st =
     (if isLiveRef st
      then (stopAudioPipeline
              (st\<lparr>shouldReconnectRef := True, isReconnecting := True, status := CONNECTING\<rparr>))
           \<lparr>reconnectTimers := reconnectTimers st + 1\<rparr>
      else stopAudioPipeline st)"

text \<open>
  The callback that \<open>onerror\<close> hands to \<open>setTimeout\<close>: it logs and calls \<open>connect()\<close>.
\<close>

definition reconnectCallback :: "string option \<Rightarrow> setup_outcome \<Rightarrow> hook_state \<Rightarrow> hook_state" where
  "reconnectCallback apiKey env st = connect apiKey env st"

definition reconnectTimerFires :: "string option \<Rightarrow> setup_outcome \<Rightarrow> hook_state \<Rightarrow> hook_state" where
  "reconnectTimerFires apiKey env st =
     (if reconnectTimers st = 0 then st
      else reconnectCallback apiKey env (st\<lparr>reconnectTimers := reconnectTimers st - 1\<rparr>))"

subsection \<open>Incoming messages\<close>

text \<open>
  The parts of a server message that the transcript handlers read. A missing
  \<open>inputTranscription\<close> or \<open>outputTranscription\<close> is \<open>None\<close>; the handlers test
  \<open>if (inputTranscript?.text)\<close>, which is false for a missing and for an empty text.
\<close>

record server_message =
  inputTranscription :: "string option"
  outputTranscription :: "string option"
  turnComplete :: bool

definition handleTranscription :: "Sender \<Rightarrow> string option \<Rightarrow> nat \<Rightarrow> hook_state \<Rightarrow> hook_state" where
  "handleTranscription who t now st =
     (case t of
        None \<Rightarrow> st
      | Some txt \<Rightarrow>
          if txt = [] then st
          else queueTranscriptUpdate txt (st\<lparr>segments := appendFragment who txt now (segments st)\<rparr>))"

definition onmessage :: "server_message \<Rightarrow> nat \<Rightarrow> hook_state \<Rightarrow> hook_state" where
  "onmessage msg now st =
     (let st1 = handleTranscription User (inputTranscription msg) now st;
          st2 = handleTranscription Model (outputTranscription msg) now st1
      in if turnComplete msg then st2\<lparr>segments := finalizeSegments (segments st2)\<rparr> else st2)"

subsection \<open>The per-block audio callback\<close>

text \<open>
  \<open>onaudioprocess\<close> reads the block \<open>inputData\<close> (which the noise gate overwrites in
  place), the threshold of \<open>configRef\<close> and the sample rate of the audio context. It
  returns the block as it leaves it and the frame it hands to \<open>sessionPromise.then\<close>, if
  any. An exception of \<open>downsampleTo16k\<close> would leave the callback.
\<close>

definition onaudioprocess ::
  "(real \<Rightarrow> real) \<Rightarrow> alloc_limit \<Rightarrow> real \<Rightarrow> real \<Rightarrow> real list \<Rightarrow> hook_state
     \<Rightarrow> js_error + (hook_state \<times> real list \<times> blob option)" where
  "onaudioprocess mtanh maxLength threshold effectiveSampleRate inputData st =
     (if \<not> isLiveRef st \<or> \<not> processorRef st \<or> \<not> audioContextRef st
      then Inr (st, inputData, None)
      else (let gated = noiseGate threshold inputData
            in case downsampleTo16k maxLength gated effectiveSampleRate of
                 Inl e \<Rightarrow> Inl e
               | Inr downsampledData \<Rightarrow>
                   Inr (st, gated, Some (createBlob mtanh downsampledData))))"

text \<open>\<open>session.sendRealtimeInput\<close>: throws, or the session takes the frame.\<close>

definition sendRealtimeInput :: "bool \<Rightarrow> blob \<Rightarrow> hook_state \<Rightarrow> js_error + hook_state" where
  "sendRealtimeInput throws pcmBlob st =
     (if throws then Inl SendError else Inr (st\<lparr>sentFrames := sentFrames st @ [pcmBlob]\<rparr>))"

text \<open>
  \<open>sessionPromise.then(...).catch(...)\<close>: a rejected promise is ignored by the
  \<open>catch\<close>; a fulfilled one runs the continuation, whose \<open>try\<close> catches what the send
  throws.
\<close>

definition sendContinuation :: "bool \<Rightarrow> bool \<Rightarrow> blob \<Rightarrow> hook_state \<Rightarrow> js_error + hook_state" where
  "sendContinuation fulfilled throws pcmBlob st =
     (if \<not> fulfilled then Inr st
      else if \<not> isLiveRef st then Inr st
      else (case sendRealtimeInput throws pcmBlob st of
              Inl e \<Rightarrow> Inr st
            | Inr st' \<Rightarrow> Inr st'))"

section \<open>Properties of the transcript aggregator\<close>

subsection \<open>The debounced buffer\<close>

lemma queueAll_acc:
  "bufferAccumulatorRef (queueAll fs st) = bufferAccumulatorRef st @ concat (map (\<lambda>f. '' '' @ f) fs)"
  by (induction fs arbitrary: st) (simp_all add: queueTranscriptUpdate_def Let_def)

lemma queueAll_visible:
  "currentTranscriptBuffer (queueAll fs st) = currentTranscriptBuffer st"
  by (induction fs arbitrary: st) (simp_all add: queueTranscriptUpdate_def Let_def)

lemma queueTranscriptUpdate_timer: "bufferDebounceTimerRef (queueTranscriptUpdate f st)"
  by (simp add: queueTranscriptUpdate_def Let_def)

lemma queueAll_timer_mono:
  "bufferDebounceTimerRef st \<Longrightarrow> bufferDebounceTimerRef (queueAll fs st)"
  by (induction fs arbitrary: st) (simp_all add: queueTranscriptUpdate_timer)

lemma queueAll_timer: "fs \<noteq> [] \<Longrightarrow> bufferDebounceTimerRef (queueAll fs st)"
  by (cases fs) (simp_all add: queueAll_timer_mono queueTranscriptUpdate_timer)

lemma spaced_length:
  "length (concat (map (\<lambda>f. '' '' @ f) fs)) = length (concat fs) + length fs"
  by (induction fs) simp_all

lemma spaced_neq_bare: "fs \<noteq> [] \<Longrightarrow> concat (map (\<lambda>f. '' '' @ f) fs) \<noteq> concat fs"
proof
  assume ne: "fs \<noteq> []" and eq: "concat (map (\<lambda>f. '' '' @ f) fs) = concat fs"
  from eq have "length (concat (map (\<lambda>f. '' '' @ f) fs)) = length (concat fs)" by simp
  with spaced_length [of fs] have "length fs = 0" by simp
  with ne show False by simp
qed

text \<open>
  Claim C9. \<open>queueTranscriptUpdate\<close> puts one space in front of every fragment it
  accumulates. After any non-empty run of fragments, the firing of the debounce timer
  appends to the visible buffer what the accumulator held followed by \<open>" " + fragment\<close>
  for each fragment in arrival order (the accumulator is empty whenever no timer is
  pending), empties the accumulator and clears the timer; the flushed text differs from
  the bare concatenation of the fragments.
\<close>

theorem queueTranscriptUpdate_prepends_space:
  "bufferAccumulatorRef (queueTranscriptUpdate f st) = bufferAccumulatorRef st @ '' '' @ f
   \<and> (fs \<noteq> [] \<longrightarrow>
        currentTranscriptBuffer (debounceTimerFires (queueAll fs st))
          = currentTranscriptBuffer st @ bufferAccumulatorRef st
              @ concat (map (\<lambda>f. '' '' @ f) fs)
        \<and> bufferAccumulatorRef (debounceTimerFires (queueAll fs st)) = []
        \<and> \<not> bufferDebounceTimerRef (debounceTimerFires (queueAll fs st))
        \<and> concat (map (\<lambda>f. '' '' @ f) fs) \<noteq> concat fs)"
proof (intro conjI impI)
  show "bufferAccumulatorRef (queueTranscriptUpdate f st) = bufferAccumulatorRef st @ '' '' @ f"
    by (simp add: queueTranscriptUpdate_def Let_def)
next
  assume ne: "fs \<noteq> []"
  then have t: "bufferDebounceTimerRef (queueAll fs st)" by (rule queueAll_timer)
  show "currentTranscriptBuffer (debounceTimerFires (queueAll fs st))
          = currentTranscriptBuffer st @ bufferAccumulatorRef st
              @ concat (map (\<lambda>f. '' '' @ f) fs)"
    using t by (simp add: debounceTimerFires_def flushCallback_def Let_def queueAll_acc queueAll_visible)
  show "bufferAccumulatorRef (debounceTimerFires (queueAll fs st)) = []"
    using t by (simp add: debounceTimerFires_def flushCallback_def Let_def)
  show "\<not> bufferDebounceTimerRef (debounceTimerFires (queueAll fs st))"
    using t by (simp add: debounceTimerFires_def flushCallback_def Let_def)
  show "concat (map (\<lambda>f. '' '' @ f) fs) \<noteq> concat fs"
    using ne by (rule spaced_neq_bare)
qed

theorem queueTranscriptUpdate_prepends_space_witness:
  "currentTranscriptBuffer
     (debounceTimerFires (queueAll [''Hello'', ''world''] (initial_state\<lparr>currentTranscriptBuffer := ''Hi.''\<rparr>)))
     = ''Hi. Hello world''"
  using queueTranscriptUpdate_prepends_space
    [of "''x''" "initial_state\<lparr>currentTranscriptBuffer := ''Hi.''\<rparr>" "[''Hello'', ''world'']"]
  by (simp add: initial_state_def)

subsection \<open>Segment merging\<close>

lemma update_last: "prev \<noteq> [] \<Longrightarrow> prev[length prev - 1 := x] = butlast prev @ [x]"
  by (induction prev rule: rev_induct) (simp_all add: list_update_append)

lemma appendFragment_merge:
  "prev \<noteq> [] \<and> sender (last prev) = who \<and> isPartial (last prev) \<Longrightarrow>
   appendFragment who txt now prev
     = butlast prev @ [(last prev)\<lparr>seg_text := seg_text (last prev) @ txt\<rparr>]"
  using update_last [of prev] by (simp add: appendFragment_def)

lemma appendFragment_new:
  "\<not> (prev \<noteq> [] \<and> sender (last prev) = who \<and> isPartial (last prev)) \<Longrightarrow>
   appendFragment who txt now prev
     = prev @ [\<lparr>seg_id = now, sender = who, seg_text = txt, timestamp = now, isPartial = True\<rparr>]"
  by (auto simp add: appendFragment_def)

lemma appendFragment_prefix:
  "take (length prev - 1) (appendFragment who txt now prev) = butlast prev"
proof (cases "prev \<noteq> [] \<and> sender (last prev) = who \<and> isPartial (last prev)")
  case True
  then show ?thesis by (simp add: appendFragment_merge)
next
  case False
  then show ?thesis by (simp add: appendFragment_new butlast_conv_take)
qed

lemma handleTranscription_segments:
  "txt \<noteq> [] \<Longrightarrow>
   segments (handleTranscription who (Some txt) now st) = appendFragment who txt now (segments st)"
  by (simp add: handleTranscription_def queueTranscriptUpdate_def Let_def)

text \<open>
  Claim C7, as amended. For every incoming fragment whose text is not empty: when the
  last segment exists, has the fragment's sender and is partial, the text is appended to
  that segment; otherwise a new partial segment is appended; the segments before the last
  are left as they were. A fragment whose text is empty is skipped by the handler: no
  segment is created or changed.
\<close>

theorem fragment_merge_rule:
  assumes "txt \<noteq> []"
  shows "(segments st \<noteq> [] \<and> sender (last (segments st)) = who \<and> isPartial (last (segments st)) \<longrightarrow>
            segments (handleTranscription who (Some txt) now st)
              = butlast (segments st)
                @ [(last (segments st))\<lparr>seg_text := seg_text (last (segments st)) @ txt\<rparr>])
       \<and> (\<not> (segments st \<noteq> [] \<and> sender (last (segments st)) = who \<and> isPartial (last (segments st))) \<longrightarrow>
            segments (handleTranscription who (Some txt) now st)
              = segments st
                @ [\<lparr>seg_id = now, sender = who, seg_text = txt, timestamp = now, isPartial = True\<rparr>])
       \<and> take (length (segments st) - 1) (segments (handleTranscription who (Some txt) now st))
            = butlast (segments st)
       \<and> handleTranscription who (Some []) now st = st"
proof (intro conjI impI)
  note seg = handleTranscription_segments [OF assms, of who now st]
  show "segments (handleTranscription who (Some txt) now st)
          = butlast (segments st)
            @ [(last (segments st))\<lparr>seg_text := seg_text (last (segments st)) @ txt\<rparr>]"
    if "segments st \<noteq> [] \<and> sender (last (segments st)) = who \<and> isPartial (last (segments st))"
    using that by (simp add: seg appendFragment_merge)
  show "segments (handleTranscription who (Some txt) now st)
          = segments st
            @ [\<lparr>seg_id = now, sender = who, seg_text = txt, timestamp = now, isPartial = True\<rparr>]"
    if "\<not> (segments st \<noteq> [] \<and> sender (last (segments st)) = who \<and> isPartial (last (segments st)))"
    using that appendFragment_new [of "segments st" who "txt" now] by (simp add: seg)
  show "take (length (segments st) - 1) (segments (handleTranscription who (Some txt) now st))
          = butlast (segments st)"
    using appendFragment_prefix [of "segments st" who "txt" now] by (simp add: seg)
  show "handleTranscription who (Some []) now st = st"
    by (simp add: handleTranscription_def)
qed

theorem fragment_merge_rule_witness:
  "map seg_text (segments
     (handleTranscription User (Some '' world'') 2
        (initial_state\<lparr>segments :=
           [\<lparr>seg_id = 1, sender = User, seg_text = ''Hello'', timestamp = 1, isPartial = True\<rparr>]\<rparr>)))
   = [''Hello world'']"
  using fragment_merge_rule [of "'' world''"
     "initial_state\<lparr>segments :=
           [\<lparr>seg_id = 1, sender = User, seg_text = ''Hello'', timestamp = 1, isPartial = True\<rparr>]\<rparr>" User 2]
  by simp

text \<open>
  Claim C7 as stated asks for a new partial segment whenever the merge condition fails.
  A user fragment with empty text arriving on the empty transcript creates none.
\<close>

theorem empty_fragment_counterexample:
  "segments (onmessage \<lparr>inputTranscription = Some [], outputTranscription = None,
                        turnComplete = False\<rparr> 7 initial_state)
   \<noteq> segments initial_state
       @ [\<lparr>seg_id = 7, sender = User, seg_text = [], timestamp = 7, isPartial = True\<rparr>]"
  by (simp add: onmessage_def handleTranscription_def initial_state_def)

section \<open>Properties of the session controller\<close>

text \<open>
  Claim C3, as amended. A call of \<open>connect\<close> with a missing or empty credential
  surfaces the message "API Key is missing." and returns: the status, the active flag
  and everything else stay as they were, no setup is performed and no reconnect is
  scheduled.
\<close>

theorem connect_missing_credential:
  assumes "apiKey = None \<or> apiKey = Some []"
  shows "connect apiKey env st = st\<lparr>errorMessage := Some ''API Key is missing.''\<rparr>"
  using assms by (auto simp add: connect_def)

theorem connect_missing_credential_witness:
  "connect None (SetupOk NoSystemStream) initial_state
     = initial_state\<lparr>errorMessage := Some ''API Key is missing.''\<rparr>
   \<and> status (connect None (SetupOk NoSystemStream) initial_state) = DISCONNECTED"
  using connect_missing_credential [of None "SetupOk NoSystemStream" initial_state]
  by (simp add: initial_state_def)

text \<open>
  Claim C3 as stated asks for the transition to the Error state. From the initial state
  the status stays Disconnected.
\<close>

theorem connect_missing_credential_counterexample:
  "status (connect None (SetupOk NoSystemStream) initial_state) \<noteq> ERROR"
  by (simp add: connect_def initial_state_def)

text \<open>
  Claim C1 asks that a reconnect attempt scheduled by \<open>onerror\<close> does nothing once the
  user has called \<open>disconnect\<close>. The trace below connects, opens, receives an error
  while active and disconnects: one timer is still pending, both flags are false and the
  status is Disconnected. When the timer fires, its callback calls \<open>connect\<close>, which
  tests the credential only: the state changes, the status becomes Connecting, the
  active flag is set again, the pipeline is set up and a second session is opened.
\<close>

theorem reconnect_after_disconnect_runs_connect:
  "(let s = disconnect (onerror (onopen (connect (Some ''key'') (SetupOk NoSystemStream) initial_state)));
        s' = reconnectTimerFires (Some ''key'') (SetupOk NoSystemStream) s
    in reconnectTimers s = 1 \<and> \<not> isLiveRef s \<and> \<not> shouldReconnectRef s
       \<and> status s = DISCONNECTED \<and> sessionsOpened s = 1
       \<and> s' \<noteq> s \<and> status s' = CONNECTING \<and> isLiveRef s' \<and> processorRef s'
       \<and> sessionRef s' \<and> sessionsOpened s' = 2)"
  by (simp add: Let_def connect_def onopen_def onerror_def disconnect_def
        stopAudioPipeline_def reconnectTimerFires_def reconnectCallback_def initial_state_def)

section \<open>Properties of double rounding\<close>

lemma binade_bounds:
  assumes "x \<noteq> 0"
  shows "2 powi (binade x) \<le> \<bar>x\<bar> \<and> \<bar>x\<bar> < 2 powi (binade x + 1)"
proof -
  have p: "0 < \<bar>x\<bar>" using assms by simp
  have "(2 :: real) powr real_of_int (binade x) \<le> \<bar>x\<bar>
        \<and> \<bar>x\<bar> < 2 powr (real_of_int (binade x) + 1)"
    using floor_log_eq_powr_iff [of "\<bar>x\<bar>" 2 "binade x"] p by (simp add: binade_def)
  moreover have "real_of_int (binade x) + 1 = real_of_int (binade x + 1)" by simp
  ultimately show ?thesis
    by (simp only: powr_real_of_int' [of 2, simplified])
qed

lemma binade_unique:
  assumes "2 powi e \<le> \<bar>x\<bar>" and "\<bar>x\<bar> < 2 powi (e + 1)"
  shows "binade x = e"
proof -
  have p: "0 < \<bar>x\<bar>"
    using assms(1) zero_less_power_int [of "2 :: real" e] by linarith
  have "(2 :: real) powr real_of_int e \<le> \<bar>x\<bar> \<and> \<bar>x\<bar> < 2 powr (real_of_int e + 1)"
    using assms powr_real_of_int' [of "2 :: real" e] powr_real_of_int' [of "2 :: real" "e + 1"]
    by simp
  then show ?thesis
    using floor_log_eq_powr_iff [of "\<bar>x\<bar>" 2 e] p by (simp add: binade_def)
qed

lemma round_ties_even_error: "\<bar>of_int (round_ties_even r) - r\<bar> \<le> 1 / 2"
  unfolding round_ties_even_def Let_def by (auto; linarith)

lemma round_ties_even_near:
  assumes "\<bar>r - of_int n\<bar> < 1 / 2"
  shows "round_ties_even r = n"
proof -
  have "\<bar>of_int (round_ties_even r) - r\<bar> \<le> 1 / 2" by (rule round_ties_even_error)
  with assms have "\<bar>real_of_int (round_ties_even r) - of_int n\<bar> < 1" by linarith
  then have "\<bar>real_of_int (round_ties_even r - n)\<bar> < 1" by simp
  then have "\<bar>round_ties_even r - n\<bar> < 1" by linarith
  then show ?thesis by simp
qed

lemma round_ties_even_of_int: "round_ties_even (of_int n) = n"
  by (rule round_ties_even_near) simp

lemma fl64_eval:
  assumes "2 powi e \<le> \<bar>x\<bar>" and "\<bar>x\<bar> < 2 powi (e + 1)"
    and "\<bar>x / 2 powi (e - 52) - of_int n\<bar> < 1 / 2"
  shows "fl64 x = of_int n * 2 powi (e - 52)"
proof -
  have b: "binade x = e" using assms(1,2) by (rule binade_unique)
  have "0 < \<bar>x\<bar>" using assms(1) zero_less_power_int [of "2 :: real" e] by linarith
  then have "x \<noteq> 0" by simp
  then show ?thesis
    using round_ties_even_near [OF assms(3)] by (simp add: fl64_def b)
qed

lemma near_half:
  fixes x :: real
  assumes "of_int n - 1 / 2 < x" and "x < of_int n + 1 / 2"
  shows "\<bar>x - of_int n\<bar> < 1 / 2"
  using assms by linarith

lemma fl64_eval_between:
  assumes "2 powi e \<le> \<bar>x\<bar>" and "\<bar>x\<bar> < 2 powi (e + 1)"
    and "of_int n - 1 / 2 < x / 2 powi (e - 52)" and "x / 2 powi (e - 52) < of_int n + 1 / 2"
  shows "fl64 x = of_int n * 2 powi (e - 52)"
  using assms(1,2) near_half [OF assms(3,4)] by (rule fl64_eval)

lemma fl64_error: "\<bar>fl64 x - x\<bar> \<le> \<bar>x\<bar> / 2 ^ 53"
proof (cases "x = 0")
  case True
  then show ?thesis by (simp add: fl64_def)
next
  case False
  define u :: real where "u = 2 powi (binade x - 52)"
  have u: "0 < u" by (simp add: u_def)
  have "fl64 x - x = (of_int (round_ties_even (x / u)) - x / u) * u"
    using False u by (simp add: fl64_def u_def [symmetric] field_simps)
  then have "\<bar>fl64 x - x\<bar> = \<bar>of_int (round_ties_even (x / u)) - x / u\<bar> * u"
    using u by (simp add: abs_mult)
  also have "\<dots> \<le> 1 / 2 * u"
    using round_ties_even_error [of "x / u"] u by (intro mult_right_mono) simp_all
  also have "1 / 2 * u = 2 powi (binade x) / 2 ^ 53"
  proof -
    have "(2 :: real) powi (binade x - 52) = 2 powi (binade x) / 2 powi 52"
      by (rule power_int_diff) simp
    then show ?thesis by (simp add: u_def)
  qed
  also have "\<dots> \<le> \<bar>x\<bar> / 2 ^ 53"
    using binade_bounds [OF False] by (simp add: divide_right_mono)
  finally show ?thesis .
qed

lemma fl64_exact:
  assumes m: "\<bar>m\<bar> < 2 ^ 53"
  shows "fl64 (of_int m * 2 powi k) = of_int m * 2 powi k"
proof (cases "m = 0")
  case True
  then show ?thesis by (simp add: fl64_def)
next
  case False
  define x :: real where "x = of_int m * 2 powi k"
  have x0: "x \<noteq> 0" using False by (simp add: x_def)
  define e where "e = binade x"
  have ax: "\<bar>x\<bar> = of_int \<bar>m\<bar> * 2 powi k" by (simp add: x_def abs_mult)
  have "real_of_int \<bar>m\<bar> < real_of_int (2 ^ 53)" using m by (simp only: of_int_less_iff)
  then have "real_of_int \<bar>m\<bar> < 2 ^ 53" by simp
  then have "\<bar>x\<bar> < 2 ^ 53 * 2 powi k"
    unfolding ax by (intro mult_strict_right_mono) simp_all
  also have "\<dots> = 2 powi (53 + k)" by (simp add: power_int_add)
  finally have "\<bar>x\<bar> < 2 powi (53 + k)" .
  moreover have "2 powi e \<le> \<bar>x\<bar>" using binade_bounds [OF x0] by (simp add: e_def)
  ultimately have lt: "(2 :: real) powi e < 2 powi (53 + k)" by linarith
  have "e < 53 + k"
  proof (rule ccontr)
    assume "\<not> e < 53 + k"
    then have "53 + k \<le> e" by simp
    then have "(2 :: real) powi (53 + k) \<le> 2 powi e" by (rule power_int_increasing) simp
    with lt show False by linarith
  qed
  then have "0 \<le> k - (e - 52)" by linarith
  then obtain j :: nat where j: "k - (e - 52) = int j" by (rule nonneg_int_cases)
  define u :: real where "u = 2 powi (e - 52)"
  have u: "0 < u" by (simp add: u_def)
  have "x / u = of_int m * (2 powi k / 2 powi (e - 52))" by (simp add: x_def u_def)
  also have "2 powi k / 2 powi (e - 52) = (2 :: real) powi (k - (e - 52))"
    by (rule power_int_diff [symmetric]) simp
  also have "\<dots> = 2 ^ j" by (simp only: j power_int_of_nat)
  finally have "x / u = of_int (m * 2 ^ j)" by simp
  then have "round_ties_even (x / u) = m * 2 ^ j" by (simp only: round_ties_even_of_int)
  then have "fl64 x = of_int (m * 2 ^ j) * u"
    using x0 by (simp add: fl64_def e_def [symmetric] u_def [symmetric])
  also have "\<dots> = x" using \<open>x / u = of_int (m * 2 ^ j)\<close> u by (simp add: field_simps)
  finally show ?thesis by (simp add: x_def)
qed

lemma fl64_of_int: "\<bar>m\<bar> < 2 ^ 53 \<Longrightarrow> fl64 (of_int m) = of_int m"
  using fl64_exact [of m 0] by simp

lemma fl64_pos: "0 < x \<Longrightarrow> 0 < fl64 x"
proof -
  assume p: "0 < x"
  have "\<bar>fl64 x - x\<bar> \<le> \<bar>x\<bar> / 2 ^ 53" by (rule fl64_error)
  moreover have "x / 2 ^ 53 < x" using p by (simp add: field_simps)
  ultimately show ?thesis using p by linarith
qed

lemma fl64_nonneg: "0 \<le> x \<Longrightarrow> 0 \<le> fl64 x"
  using fl64_pos [of x] by (cases "x = 0") (simp_all add: fl64_def less_imp_le)

lemma fl64_nonpos: "x \<le> 0 \<Longrightarrow> fl64 x \<le> 0"
proof -
  assume p: "x \<le> 0"
  have "\<bar>fl64 x - x\<bar> \<le> \<bar>x\<bar> / 2 ^ 53" by (rule fl64_error)
  moreover have "\<bar>x\<bar> / 2 ^ 53 \<le> \<bar>x\<bar>" by (simp add: field_simps)
  ultimately show ?thesis using p by linarith
qed

lemma round_bounds: "of_int (round x) \<le> x + 1 / 2 \<and> x - 1 / 2 < of_int (round x)" for x :: real
  unfolding round_def by linarith

lemma fl64_nonneg_error:
  assumes "0 \<le> y"
  shows "y * (1 - 1 / 2 ^ 53) \<le> fl64 y \<and> fl64 y \<le> y * (1 + 1 / 2 ^ 53)"
proof -
  have "\<bar>fl64 y - y\<bar> \<le> \<bar>y\<bar> / 2 ^ 53" by (rule fl64_error)
  with assms have "\<bar>fl64 y - y\<bar> \<le> y / 2 ^ 53" by simp
  then have "fl64 y - y \<le> y / 2 ^ 53" and "y - fl64 y \<le> y / 2 ^ 53" by linarith+
  then show ?thesis by (simp add: algebra_simps)
qed

lemma fdiv_nonneg_error:
  assumes "0 \<le> a / b"
  shows "a / b * (1 - 1 / 2 ^ 53) \<le> fdiv a b \<and> fdiv a b \<le> a / b * (1 + 1 / 2 ^ 53)"
  unfolding fdiv_def using assms by (rule fl64_nonneg_error)

lemma fmul_nonneg_error:
  assumes "0 \<le> a * b"
  shows "fmul a b \<le> a * b * (1 + 1 / 2 ^ 53)"
  unfolding fmul_def using fl64_nonneg_error [OF assms] by simp

lemma fl64_minus: "fl64 (- x) = - fl64 x"
proof (cases "x = 0")
  case True
  then show ?thesis by (simp add: fl64_def)
next
  case False
  have r: "round_ties_even (- y) = - round_ties_even y" for y :: real
  proof -
    have "\<bar>of_int (round_ties_even y) - y\<bar> \<le> 1 / 2" by (rule round_ties_even_error)
    show ?thesis
    proof (cases "y - of_int \<lfloor>y\<rfloor> = 1 / 2")
      case half: True
      then have fm: "\<lfloor>- y\<rfloor> = - \<lfloor>y\<rfloor> - 1"
        by (intro floor_unique) linarith+
      then have dm: "- y - of_int \<lfloor>- y\<rfloor> = 1 / 2" using half by simp
      show ?thesis
        using half dm by (simp add: round_ties_even_def Let_def fm)
    next
      case False
      then have "\<bar>y - of_int (round_ties_even y)\<bar> < 1 / 2"
        unfolding round_ties_even_def Let_def by (auto; linarith)
      moreover have "- y - of_int (- round_ties_even y) = - (y - of_int (round_ties_even y))"
        by simp
      ultimately have "\<bar>- y - of_int (- round_ties_even y)\<bar> < 1 / 2"
        by (simp only: abs_minus)
      then show ?thesis by (rule round_ties_even_near)
    qed
  qed
  have "binade (- x) = binade x" by (simp add: binade_def)
  then show ?thesis using False by (simp add: fl64_def r Let_def)
qed

lemma fl64_zero: "fl64 0 = 0"
  by (simp add: fl64_def)

lemma round_ties_even_mono:
  assumes "r \<le> s"
  shows "round_ties_even r \<le> round_ties_even s"
proof (rule ccontr)
  assume "\<not> round_ties_even r \<le> round_ties_even s"
  then have "round_ties_even s + 1 \<le> round_ties_even r" by simp
  then have "real_of_int (round_ties_even s + 1) \<le> real_of_int (round_ties_even r)"
    by (simp only: of_int_le_iff)
  then have a: "real_of_int (round_ties_even s) + 1 \<le> real_of_int (round_ties_even r)" by simp
  have "\<bar>of_int (round_ties_even r) - r\<bar> \<le> 1 / 2" and "\<bar>of_int (round_ties_even s) - s\<bar> \<le> 1 / 2"
    by (rule round_ties_even_error)+
  with a assms have "r = s" by linarith
  with \<open>\<not> round_ties_even r \<le> round_ties_even s\<close> show False by simp
qed

lemma binade_mono:
  assumes "0 < x" and "x \<le> y"
  shows "binade x \<le> binade y"
proof -
  have "log 2 \<bar>x\<bar> \<le> log 2 \<bar>y\<bar>" using assms by simp
  then show ?thesis unfolding binade_def by (rule floor_mono)
qed

lemma fl64_upper_binade:
  assumes "0 < x"
  shows "fl64 x \<le> 2 powi (binade x + 1)"
proof -
  define u :: real where "u = 2 powi (binade x - 52)"
  have u: "0 < u" by (simp add: u_def)
  have x0: "x \<noteq> 0" using assms by simp
  have e: "(2 :: real) powi (binade x + 1) = 2 ^ 53 * u"
  proof -
    have "(2 :: real) powi (53 + (binade x - 52)) = 2 powi 53 * 2 powi (binade x - 52)"
      by (rule power_int_add) simp
    then show ?thesis by (simp add: u_def algebra_simps)
  qed
  have "x < 2 ^ 53 * u" using binade_bounds [OF x0] assms e by simp
  then have "x / u \<le> of_int (2 ^ 53)" using u by (simp add: pos_divide_le_eq)
  then have "round_ties_even (x / u) \<le> round_ties_even (of_int (2 ^ 53))"
    by (rule round_ties_even_mono)
  then have "round_ties_even (x / u) \<le> 2 ^ 53" by (simp only: round_ties_even_of_int)
  then have "real_of_int (round_ties_even (x / u)) \<le> real_of_int (2 ^ 53)"
    by (simp only: of_int_le_iff)
  then have "real_of_int (round_ties_even (x / u)) * u \<le> 2 ^ 53 * u"
    using u by (intro mult_right_mono) simp_all
  then show ?thesis using x0 by (simp add: fl64_def u_def [symmetric] e)
qed

lemma fl64_lower_binade:
  assumes "0 < x"
  shows "2 powi (binade x) \<le> fl64 x"
proof -
  define u :: real where "u = 2 powi (binade x - 52)"
  have u: "0 < u" by (simp add: u_def)
  have x0: "x \<noteq> 0" using assms by simp
  have e: "(2 :: real) powi (binade x) = 2 ^ 52 * u"
  proof -
    have "(2 :: real) powi (52 + (binade x - 52)) = 2 powi 52 * 2 powi (binade x - 52)"
      by (rule power_int_add) simp
    then show ?thesis by (simp add: u_def algebra_simps)
  qed
  have "2 ^ 52 * u \<le> x" using binade_bounds [OF x0] assms e by simp
  then have "of_int (2 ^ 52) \<le> x / u" using u by (simp add: pos_le_divide_eq)
  then have "round_ties_even (of_int (2 ^ 52)) \<le> round_ties_even (x / u)"
    by (rule round_ties_even_mono)
  then have "2 ^ 52 \<le> round_ties_even (x / u)" by (simp only: round_ties_even_of_int)
  then have "real_of_int (2 ^ 52) \<le> real_of_int (round_ties_even (x / u))"
    by (simp only: of_int_le_iff)
  then have "2 ^ 52 * u \<le> real_of_int (round_ties_even (x / u)) * u"
    using u by (intro mult_right_mono) simp_all
  then show ?thesis using x0 by (simp add: fl64_def u_def [symmetric] e)
qed

lemma fl64_mono_pos:
  assumes "0 < x" and "x \<le> y"
  shows "fl64 x \<le> fl64 y"
proof (cases "binade x = binade y")
  case True
  define u :: real where "u = 2 powi (binade x - 52)"
  have u: "0 < u" by (simp add: u_def)
  have "x / u \<le> y / u" using assms u by (simp add: divide_right_mono)
  then have "round_ties_even (x / u) \<le> round_ties_even (y / u)" by (rule round_ties_even_mono)
  then have "real_of_int (round_ties_even (x / u)) \<le> real_of_int (round_ties_even (y / u))"
    by (simp only: of_int_le_iff)
  then have "real_of_int (round_ties_even (x / u)) * u \<le> real_of_int (round_ties_even (y / u)) * u"
    using u by (intro mult_right_mono) simp_all
  moreover have "x \<noteq> 0" "y \<noteq> 0" using assms by simp_all
  ultimately show ?thesis by (simp add: fl64_def True [symmetric] u_def [symmetric])
next
  case False
  have y: "0 < y" using assms by linarith
  have "binade x \<le> binade y" using assms by (rule binade_mono)
  with False have "binade x + 1 \<le> binade y" by simp
  then have "(2 :: real) powi (binade x + 1) \<le> 2 powi (binade y)"
    by (rule power_int_increasing) simp
  with fl64_upper_binade [OF assms(1)] fl64_lower_binade [OF y] show ?thesis by linarith
qed

lemma fl64_mono:
  assumes "x \<le> y"
  shows "fl64 x \<le> fl64 y"
proof -
  consider "0 < x" | "x \<le> 0 \<and> 0 \<le> y" | "y < 0" using assms by linarith
  then show ?thesis
  proof cases
    case 1
    then show ?thesis using assms by (rule fl64_mono_pos)
  next
    case 2
    then show ?thesis using fl64_nonpos [of x] fl64_nonneg [of y] by linarith
  next
    case 3
    then have "0 < - y" and "- y \<le> - x" using assms by simp_all
    then have "fl64 (- y) \<le> fl64 (- x)" by (rule fl64_mono_pos)
    then show ?thesis by (simp add: fl64_minus)
  qed
qed

lemma fl64_neg: "x < 0 \<Longrightarrow> fl64 x < 0"
  using fl64_pos [of "- x"] by (simp add: fl64_minus)

section \<open>Properties of the audio path\<close>

subsection \<open>Noise gate\<close>

lemma fl64_256: "fl64 (1 / 256) = 1 / 256"
  using fl64_exact [of 1 "- 8"] by simp

lemma fl64_512: "fl64 (1 / 512) = 1 / 512"
  using fl64_exact [of 1 "- 9"] by simp

lemma sumSquares_example: "sumSquares [1 / 16, 0] = 1 / 256"
  by (simp add: sumSquares_def fadd_def fmul_def fl64_zero fl64_256)

lemma sqrt_512_bounds:
  "12738103345051545 / 2 ^ 58 < sqrt (1 / 512 :: real)
   \<and> sqrt (1 / 512 :: real) < 12738103345051547 / 2 ^ 58"
proof
  show "12738103345051545 / 2 ^ 58 < sqrt (1 / 512 :: real)"
    by (rule real_less_rsqrt) (simp add: power2_eq_square)
  show "sqrt (1 / 512 :: real) < 12738103345051547 / 2 ^ 58"
    by (rule real_less_lsqrt) (simp_all add: power2_eq_square)
qed

lemma fsqrt_512: "fsqrt (1 / 512) = 6369051672525773 / 2 ^ 57"
proof -
  let ?s = "sqrt (1 / 512 :: real)"
  note b = sqrt_512_bounds
  have 1: "2 powi (- 5) \<le> \<bar>?s\<bar>" using b by simp
  have 2: "\<bar>?s\<bar> < 2 powi (- 5 + 1)" using b by simp
  have 3: "of_int 6369051672525773 - 1 / 2 < ?s / 2 powi (- 5 - 52)"
    using b by (simp add: power_int_minus field_simps)
  have 4: "?s / 2 powi (- 5 - 52) < of_int 6369051672525773 + 1 / 2"
    using b by (simp add: power_int_minus field_simps)
  show ?thesis
    using fl64_eval_between [OF 1 2 3 4] by (simp add: fsqrt_def power_int_minus)
qed

lemma blockRms_example: "blockRms [1 / 16, 0] = Some (6369051672525773 / 2 ^ 57)"
  by (simp add: blockRms_def sumSquares_example fdiv_def fl64_512 fsqrt_512)

lemma rms_spec_example: "rms_spec [1 / 16, 0] < 6369051672525773 / 2 ^ 57"
proof -
  have "rms_spec [1 / 16, 0] = sqrt (1 / 512)"
    by (simp add: rms_spec_def power2_eq_square)
  moreover have "sqrt (1 / 512 :: real) < 6369051672525773 / 2 ^ 57"
    by (rule real_less_lsqrt) (simp_all add: power2_eq_square)
  ultimately show ?thesis by simp
qed

text \<open>
  Claim C4, as amended. The gate compares with the threshold the RMS as the callback
  computes it: the squares are added in index order, the sum is divided by the length
  and the square root is taken, each operation rounded to double. For every non-empty
  block, when that value is strictly below the threshold every sample becomes 0, and
  when it is at or above the threshold the block is unchanged; the empty block is
  unchanged. The callback resamples and encodes the gated block.
\<close>

theorem noise_gate_rule:
  "(block \<noteq> [] \<and> fsqrt (fdiv (sumSquares block) (real (length block))) < th \<longrightarrow>
      noiseGate th block = replicate (length block) 0)
   \<and> (block \<noteq> [] \<and> th \<le> fsqrt (fdiv (sumSquares block) (real (length block))) \<longrightarrow>
      noiseGate th block = block)
   \<and> noiseGate th [] = []
   \<and> (isLiveRef st \<and> processorRef st \<and> audioContextRef st
        \<and> downsampleTo16k maxLength (noiseGate th block) rate = Inr d \<longrightarrow>
        onaudioprocess mtanh maxLength th rate block st
          = Inr (st, noiseGate th block, Some (createBlob mtanh d)))"
  by (simp add: noiseGate_def blockRms_def onaudioprocess_def)

theorem noise_gate_rule_witness:
  "noiseGate (1 / 16) [1 / 16, 0] = [0, 0] \<and> noiseGate (1 / 32) [1 / 16, 0] = [1 / 16, 0]"
proof -
  have v: "fsqrt (fdiv (sumSquares [1 / 16, 0]) (real (length [1 / 16, 0 :: real])))
             = 6369051672525773 / 2 ^ 57"
    using blockRms_example by (simp add: blockRms_def)
  have a: "[1 / 16, 0 :: real] \<noteq> []
           \<and> fsqrt (fdiv (sumSquares [1 / 16, 0]) (real (length [1 / 16, 0 :: real]))) < 1 / 16"
    unfolding v by simp
  have b: "[1 / 16, 0 :: real] \<noteq> []
           \<and> 1 / 32 \<le> fsqrt (fdiv (sumSquares [1 / 16, 0]) (real (length [1 / 16, 0 :: real])))"
    unfolding v by simp
  from a noise_gate_rule [of "[1 / 16, 0]" "1 / 16"]
  have "noiseGate (1 / 16) [1 / 16, 0] = replicate (length [1 / 16, 0 :: real]) 0" by blast
  then have "noiseGate (1 / 16) [1 / 16, 0] = [0, 0]" by (simp add: numeral_2_eq_2)
  moreover from b noise_gate_rule [of "[1 / 16, 0]" "1 / 32"]
  have "noiseGate (1 / 32) [1 / 16, 0] = [1 / 16, 0]" by blast
  ultimately show ?thesis by simp
qed

text \<open>
  Claim C4 as stated gates on the exact RMS. The block \<open>[0.0625, 0]\<close> has the exact RMS
  \<open>sqrt (1 / 512)\<close>, strictly below the threshold \<open>6369051672525773 / 2^57\<close> (the double
  0.04419417382415922); the computed RMS is that double, so the block passes unchanged
  and is not silenced.
\<close>

theorem noise_gate_exact_rms_counterexample:
  "rms_spec [1 / 16, 0] < 6369051672525773 / 2 ^ 57
   \<and> noiseGate (6369051672525773 / 2 ^ 57) [1 / 16, 0] = [1 / 16, 0]
   \<and> noiseGate (6369051672525773 / 2 ^ 57) [1 / 16, 0] \<noteq> replicate (length [1 / 16, 0 :: real]) 0"
  using rms_spec_example by (simp add: noiseGate_def blockRms_example)

subsection \<open>Resampler\<close>

lemma index_bound:
  assumes r: "0 < r" and i: "int i < round (fdiv (real L) r)"
    and lim: "round (fdiv (real L) r) \<le> 2 ^ 48"
  shows "0 \<le> inputIndex r i \<and> inputIndex r i < real L"
proof -
  define t where "t = real L / r"
  define q where "q = fdiv (real L) r"
  define X where "X = real i * r"
  have t0: "0 \<le> t" using r by (simp add: t_def)
  have qt: "t * (1 - 1 / 2 ^ 53) \<le> q \<and> q \<le> t * (1 + 1 / 2 ^ 53)"
    using fdiv_nonneg_error [of "real L" r] t0 by (simp add: t_def q_def)
  have rq: "of_int (round q) \<le> q + 1 / 2 \<and> q - 1 / 2 < of_int (round q)"
    by (rule round_bounds)
  have "int i + 1 \<le> round q" using i by (simp add: q_def)
  then have "real_of_int (int i + 1) \<le> real_of_int (round q)" by (simp only: of_int_le_iff)
  then have i1: "real i + 1 \<le> of_int (round q)" by simp
  have "real_of_int (round q) \<le> real_of_int (2 ^ 48)"
    using lim by (simp only: of_int_le_iff q_def)
  then have n48: "real_of_int (round q) \<le> 2 ^ 48" by simp
  have iq: "real i \<le> t * (1 + 1 / 2 ^ 53) - 1 / 2" using i1 rq qt by linarith
  have tl: "t * (1 - 1 / 2 ^ 53) < 2 ^ 48 + 1 / 2" using n48 rq qt by linarith
  have tr: "t * r = real L" using r by (simp add: t_def)
  have "X \<le> (t * (1 + 1 / 2 ^ 53) - 1 / 2) * r"
    unfolding X_def using iq r by (intro mult_right_mono) simp_all
  also have "\<dots> = real L * (1 + 1 / 2 ^ 53) - r / 2"
    using tr by (simp add: algebra_simps)
  finally have Xb: "X \<le> real L * (1 + 1 / 2 ^ 53) - r / 2" .
  have "t * (1 - 1 / 2 ^ 53) * r < (2 ^ 48 + 1 / 2) * r"
    using tl r by (intro mult_strict_right_mono)
  moreover have "t * (1 - 1 / 2 ^ 53) * r = real L * (1 - 1 / 2 ^ 53)"
    using tr by (simp add: algebra_simps)
  ultimately have rl: "real L * (1 - 1 / 2 ^ 53) < (2 ^ 48 + 1 / 2) * r" by simp
  have X0: "0 \<le> X" using r by (simp add: X_def)
  have p: "inputIndex r i \<le> X * (1 + 1 / 2 ^ 53)"
    using fmul_nonneg_error [of "real i" r] X0 by (simp add: inputIndex_def X_def)
  have p0: "0 \<le> inputIndex r i"
    using X0 by (simp add: inputIndex_def fmul_def fl64_nonneg X_def)
  have "inputIndex r i < real L" using p Xb rl r by (simp add: algebra_simps)
  with p0 show ?thesis by simp
qed

lemma ratio_pos: "0 < inputRate \<Longrightarrow> 0 < fdiv inputRate PCM_SAMPLE_RATE"
  by (simp add: fdiv_def PCM_SAMPLE_RATE_def fl64_pos)

lemma quotient_round_nonneg: "0 < r \<Longrightarrow> 0 \<le> round (fdiv (real L) r)"
proof -
  assume "0 < r"
  then have "0 \<le> real L / r" by simp
  then have "0 \<le> fdiv (real L) r" by (simp add: fdiv_def fl64_nonneg)
  then show ?thesis by (simp add: round_def)
qed

lemma alloc_limit_bound: "int (unat (mx :: alloc_limit)) < 2 ^ 48"
  using unsigned_less [of mx, where 'a = int] by simp

lemma newLength_pos:
  assumes "0 < inputRate"
  shows "newLength mx len inputRate
           = (if int (unat mx) < round (fdiv (real len) (fdiv inputRate PCM_SAMPLE_RATE))
              then Inl RangeError
              else Inr (nat (round (fdiv (real len) (fdiv inputRate PCM_SAMPLE_RATE)))))"
  using ratio_pos [OF assms] quotient_round_nonneg [OF ratio_pos [OF assms], of len]
  by (simp add: newLength_def Let_def)

lemma indexFloor_range:
  assumes r: "0 < r" and i: "int i < round (fdiv (real L) r)"
    and lim: "round (fdiv (real L) r) \<le> 2 ^ 48"
  shows "0 \<le> indexFloor r i \<and> indexFloor r i \<le> int L - 1"
proof -
  have b: "0 \<le> inputIndex r i \<and> inputIndex r i < real L" using r i lim by (rule index_bound)
  then have lo: "0 \<le> \<lfloor>inputIndex r i\<rfloor>" by simp
  have "\<lfloor>inputIndex r i\<rfloor> < int L" using b by (simp add: floor_less_iff)
  with lo show ?thesis by (simp add: indexFloor_def)
qed

lemma indexCeil_range:
  assumes r: "0 < r" and i: "int i < round (fdiv (real L) r)"
    and lim: "round (fdiv (real L) r) \<le> 2 ^ 48"
  shows "0 \<le> indexCeil L r i \<and> indexCeil L r i \<le> int L - 1"
proof -
  have b: "0 \<le> inputIndex r i \<and> inputIndex r i < real L" using r i lim by (rule index_bound)
  then have lo: "0 \<le> \<lceil>inputIndex r i\<rceil>" by (simp add: le_ceiling_iff)
  from b have "0 < real L" by linarith
  then have "0 \<le> int L - 1" by simp
  with lo show ?thesis by (simp add: indexCeil_def)
qed

lemma lerpSample_in_bounds:
  assumes r: "0 < r" and i: "int i < round (fdiv (real (length buffer)) r)"
    and lim: "round (fdiv (real (length buffer)) r) \<le> 2 ^ 48"
  shows "lerpSample buffer r i
           = Some (buffer ! nat (indexFloor r i)
                     * (1 - fsub (inputIndex r i) (of_int (indexFloor r i)))
                   + buffer ! nat (indexCeil (length buffer) r i)
                     * fsub (inputIndex r i) (of_int (indexFloor r i)))"
  using indexFloor_range [OF r i lim] indexCeil_range [OF r i lim]
  by (simp add: lerpSample_def readSample_def Let_def)

text \<open>
  Claim C5, as amended. For every buffer and every positive input rate other than 16000,
  let \<open>n\<close> be \<open>Math.round\<close> of the double quotient of the buffer length by the double
  ratio \<open>inputRate / 16000\<close>. When \<open>n\<close> exceeds the length the engine can allocate the
  resampler throws RangeError; otherwise it returns an output of length \<open>n\<close>, and for
  every output index both source indices, the floor and the clamped ceiling, lie in
  \<open>0 .. length - 1\<close>, so that no read is out of bounds. The empty buffer gives the
  empty output.
\<close>

theorem downsample_length_and_bounds:
  assumes "0 < inputRate" and "inputRate \<noteq> 16000"
  shows "(let n = round (fdiv (real (length buffer)) (fdiv inputRate 16000))
          in if int (unat maxLength) < n
             then downsampleTo16k maxLength buffer inputRate = Inl RangeError
             else (\<exists>out. downsampleTo16k maxLength buffer inputRate = Inr out
                    \<and> int (length out) = n
                    \<and> (\<forall>i < length out.
                          0 \<le> indexFloor (fdiv inputRate 16000) i
                        \<and> indexFloor (fdiv inputRate 16000) i \<le> int (length buffer) - 1
                        \<and> 0 \<le> indexCeil (length buffer) (fdiv inputRate 16000) i
                        \<and> indexCeil (length buffer) (fdiv inputRate 16000) i
                              \<le> int (length buffer) - 1
                        \<and> out ! i \<noteq> None)))
       \<and> (buffer = [] \<longrightarrow> downsampleTo16k maxLength buffer inputRate = Inr [])"
proof -
  let ?r = "fdiv inputRate 16000"
  let ?n = "round (fdiv (real (length buffer)) ?r)"
  let ?out = "map (lerpSample buffer ?r) [0..<nat ?n]"
  have r: "0 < ?r" using ratio_pos [OF assms(1)] by (simp add: PCM_SAMPLE_RATE_def)
  have nn: "0 \<le> ?n" using r by (rule quotient_round_nonneg)
  have nl: "newLength maxLength (length buffer) inputRate
              = (if int (unat maxLength) < ?n then Inl RangeError else Inr (nat ?n))"
    using newLength_pos [OF assms(1), of maxLength "length buffer"]
    by (simp add: PCM_SAMPLE_RATE_def)
  have big: "downsampleTo16k maxLength buffer inputRate = Inl RangeError"
    if "int (unat maxLength) < ?n"
    using that assms(2) nl by (simp add: downsampleTo16k_def PCM_SAMPLE_RATE_def)
  have small: "\<exists>out. downsampleTo16k maxLength buffer inputRate = Inr out
                    \<and> int (length out) = ?n
                    \<and> (\<forall>i < length out.
                          0 \<le> indexFloor ?r i
                        \<and> indexFloor ?r i \<le> int (length buffer) - 1
                        \<and> 0 \<le> indexCeil (length buffer) ?r i
                        \<and> indexCeil (length buffer) ?r i \<le> int (length buffer) - 1
                        \<and> out ! i \<noteq> None)"
    if le: "\<not> int (unat maxLength) < ?n"
  proof -
    have lim: "?n \<le> 2 ^ 48" using le alloc_limit_bound [of maxLength] by linarith
    have ds: "downsampleTo16k maxLength buffer inputRate = Inr ?out"
      using le assms(2) nl by (simp add: downsampleTo16k_def PCM_SAMPLE_RATE_def)
    have len: "int (length ?out) = ?n" using nn by simp
    have idx: "0 \<le> indexFloor ?r i \<and> indexFloor ?r i \<le> int (length buffer) - 1
               \<and> 0 \<le> indexCeil (length buffer) ?r i
               \<and> indexCeil (length buffer) ?r i \<le> int (length buffer) - 1
               \<and> ?out ! i \<noteq> None" if "i < length ?out" for i
    proof -
      from that nn have i: "int i < ?n" by simp
      show ?thesis
        using indexFloor_range [OF r i lim] indexCeil_range [OF r i lim]
          lerpSample_in_bounds [OF r i lim] that
        by simp
    qed
    show ?thesis using ds len idx by blast
  qed
  have emp: "downsampleTo16k maxLength buffer inputRate = Inr []" if "buffer = []"
  proof -
    have "fdiv (real (length buffer)) ?r = 0" using that by (simp add: fdiv_def fl64_zero)
    then have "?n = 0" by simp
    then show ?thesis
      using assms(2) nl by (simp add: downsampleTo16k_def PCM_SAMPLE_RATE_def)
  qed
  show ?thesis
    using big small emp by (simp add: Let_def)
qed

lemma fl64_small_int: "fl64 3 = 3" "fl64 2 = 2"
  using fl64_of_int [of 3] fl64_of_int [of 2] by simp_all

lemma unat_limit_example: "int (unat (4294967295 :: alloc_limit)) = 4294967295"
  by simp

theorem downsample_length_and_bounds_witness:
  "\<exists>out. downsampleTo16k 4294967295 [1, 2, 3, 4, 5, 6] 48000 = Inr out \<and> length out = 2
         \<and> out ! 0 \<noteq> None \<and> out ! 1 \<noteq> None"
proof -
  have n: "round (fdiv (real (length [1, 2, 3, 4, 5, 6 :: real])) (fdiv 48000 16000)) = 2"
    by (simp add: fdiv_def fl64_small_int)
  have lim: "int (unat (4294967295 :: alloc_limit)) < 2 \<longleftrightarrow> False"
    by (simp only: unat_limit_example) simp
  have h1: "(0 :: real) < 48000" and h2: "(48000 :: real) \<noteq> 16000" by simp_all
  have "\<exists>out. downsampleTo16k 4294967295 [1, 2, 3, 4, 5, 6] 48000 = Inr out
          \<and> int (length out) = 2 \<and> (\<forall>i < length out. out ! i \<noteq> None)"
    using downsample_length_and_bounds [OF h1 h2, of "[1, 2, 3, 4, 5, 6]" 4294967295]
    by (simp only: Let_def n lim if_False) blast
  then obtain out where o: "downsampleTo16k 4294967295 [1, 2, 3, 4, 5, 6] 48000 = Inr out"
    and l: "int (length out) = 2" and e: "\<forall>i < length out. out ! i \<noteq> None"
    by blast
  from l have l2: "length out = 2" by linarith
  with e have "out ! 0 \<noteq> None" and "out ! 1 \<noteq> None" by simp_all
  with o l2 show ?thesis by blast
qed

lemma ratio_8960: "fdiv 8960 16000 = 5044031582654956 / 2 ^ 53"
proof -
  let ?x = "14 / 25 :: real"
  have 1: "2 powi (- 1) \<le> \<bar>?x\<bar>" by simp
  have 2: "\<bar>?x\<bar> < 2 powi (- 1 + 1)" by simp
  have 3: "of_int 5044031582654956 - 1 / 2 < ?x / 2 powi (- 1 - 52)"
    by (simp add: power_int_minus field_simps)
  have 4: "?x / 2 powi (- 1 - 52) < of_int 5044031582654956 + 1 / 2"
    by (simp add: power_int_minus field_simps)
  show ?thesis
    using fl64_eval_between [OF 1 2 3 4] by (simp add: fdiv_def power_int_minus)
qed

lemma quotient_7_8960: "fdiv 7 (5044031582654956 / 2 ^ 53) = 7036874417766399 / 2 ^ 49"
proof -
  let ?x = "7 / (5044031582654956 / 2 ^ 53) :: real"
  have 1: "2 powi 3 \<le> \<bar>?x\<bar>" by simp
  have 2: "\<bar>?x\<bar> < 2 powi (3 + 1)" by simp
  have 3: "of_int 7036874417766399 - 1 / 2 < ?x / 2 powi (3 - 52)"
    by (simp add: power_int_minus field_simps)
  have 4: "?x / 2 powi (3 - 52) < of_int 7036874417766399 + 1 / 2"
    by (simp add: power_int_minus field_simps)
  show ?thesis
    using fl64_eval_between [OF 1 2 3 4] by (simp add: fdiv_def power_int_minus)
qed

lemma round_7_8960: "round (fdiv 7 (fdiv 8960 16000)) = 12"
proof -
  have "fdiv 7 (fdiv 8960 16000) = 7036874417766399 / 2 ^ 49"
    by (simp only: ratio_8960 quotient_7_8960)
  moreover have "round (7036874417766399 / 2 ^ 49 :: real) = 12"
    unfolding round_def by (rule floor_unique) simp_all
  ultimately show ?thesis by (simp only:)
qed

lemma newLength_7_8960: "newLength 4294967295 7 8960 = Inr 12"
proof -
  have "fdiv 8960 16000 \<noteq> 0" using ratio_pos [of 8960] by (simp add: PCM_SAMPLE_RATE_def)
  then show ?thesis
    by (simp add: newLength_def PCM_SAMPLE_RATE_def round_7_8960)
qed

lemma round_exact_7_8960: "round (real (length (replicate 7 (0 :: real))) / (8960 / 16000)) = 13"
proof -
  have "real (length (replicate 7 (0 :: real))) / (8960 / 16000) = 25 / 2" by simp
  moreover have "round (25 / 2 :: real) = 13"
    unfolding round_def by (rule floor_unique) simp_all
  ultimately show ?thesis by (simp only:)
qed

lemma fl64_pow_60: "fl64 (1 / 2 ^ 60) = 1 / 2 ^ 60" "fl64 (2 ^ 60) = 2 ^ 60"
proof -
  have e: "(of_int 1 * 2 powi (- 60) :: real) = 1 / 2 ^ 60"
    by (simp add: power_int_minus field_simps)
  have "fl64 (of_int 1 * 2 powi (- 60)) = of_int 1 * 2 powi (- 60)"
    by (rule fl64_exact) simp
  then show "fl64 (1 / 2 ^ 60) = 1 / 2 ^ 60" unfolding e .
  have e': "(of_int 1 * 2 powi 60 :: real) = 2 ^ 60" by simp
  have "fl64 (of_int 1 * 2 powi 60) = of_int 1 * 2 powi 60"
    by (rule fl64_exact) simp
  then show "fl64 (2 ^ 60) = 2 ^ 60" unfolding e' .
qed

lemma newLength_tiny_rate: "newLength mx 1 (16000 / 2 ^ 60) = Inl RangeError"
proof -
  have "(16000 / 2 ^ 60) / PCM_SAMPLE_RATE = (1 / 2 ^ 60 :: real)"
    by (simp add: PCM_SAMPLE_RATE_def)
  then have r: "fdiv (16000 / 2 ^ 60) PCM_SAMPLE_RATE = 1 / 2 ^ 60"
    unfolding fdiv_def by (simp only: fl64_pow_60)
  have "real 1 / (1 / 2 ^ 60) = 2 ^ 60" by simp
  then have q: "fdiv (real 1) (1 / 2 ^ 60) = 2 ^ 60"
    unfolding fdiv_def by (simp only: fl64_pow_60)
  have n: "round (2 ^ 60 :: real) = 2 ^ 60"
    using round_of_int [of "2 ^ 60", where 'a = real] by simp
  have l: "int (unat mx) < 2 ^ 60" using alloc_limit_bound [of mx] by simp
  have z: "(1 / 2 ^ 60 :: real) \<noteq> 0" by simp
  show ?thesis
    unfolding newLength_def Let_def r q n using l z by (simp only: if_False) simp
qed

lemma downsample_7_8960:
  "\<exists>out. downsampleTo16k 4294967295 (replicate 7 0) 8960 = Inr out \<and> length out = 12"
  by (simp add: downsampleTo16k_def PCM_SAMPLE_RATE_def newLength_7_8960)

lemma downsample_tiny_rate: "downsampleTo16k mx [0] (16000 / 2 ^ 60) = Inl RangeError"
proof -
  have ne: "(16000 / 2 ^ 60 :: real) \<noteq> PCM_SAMPLE_RATE" by (simp add: PCM_SAMPLE_RATE_def)
  have len: "length [0 :: real] = 1" by simp
  show ?thesis
    unfolding downsampleTo16k_def by (simp only: ne if_False len newLength_tiny_rate sum.case)
qed

text \<open>
  Claim C5 as stated asks for the length \<open>round (length / (inputRate / 16000))\<close> and for
  an output at every positive rate. At the rate 8960 a buffer of 7 samples gives the
  output length 12, where the exact quotient 12.5 rounds to 13; at the rate
  \<open>16000 / 2^60\<close> a buffer of one sample makes the allocation throw RangeError.
\<close>

theorem downsample_exact_length_counterexample:
  "(\<exists>out. downsampleTo16k 4294967295 (replicate 7 0) 8960 = Inr out \<and> length out = 12)
   \<and> round (real (length (replicate 7 (0 :: real))) / (8960 / 16000)) = 13
   \<and> downsampleTo16k 4294967295 [0] (16000 / 2 ^ 60) = Inl RangeError"
  using downsample_7_8960 round_exact_7_8960 downsample_tiny_rate [of 4294967295]
  by (intro conjI)

lemma lerpSample_constant:
  assumes r: "0 < r" and i: "int i < round (fdiv (real n) r)"
    and lim: "round (fdiv (real n) r) \<le> 2 ^ 48"
  shows "lerpSample (replicate n c) r i = Some c"
proof -
  have i': "int i < round (fdiv (real (length (replicate n c))) r)" using i by simp
  have lim': "round (fdiv (real (length (replicate n c))) r) \<le> 2 ^ 48" using lim by simp
  have f: "nat (indexFloor r i) < n"
    using indexFloor_range [OF r i lim] by linarith
  have g: "nat (indexCeil n r i) < n"
    using indexCeil_range [OF r i lim] by linarith
  show ?thesis
    using lerpSample_in_bounds [OF r i' lim'] f g
    by (simp add: algebra_simps)
qed

lemma newLength_nonpos:
  assumes "inputRate \<le> 0"
  shows "newLength mx len inputRate = Inr 0 \<or> newLength mx len inputRate = Inl RangeError"
proof -
  let ?r = "fdiv inputRate PCM_SAMPLE_RATE"
  have "inputRate / PCM_SAMPLE_RATE \<le> 0"
    using assms by (simp add: PCM_SAMPLE_RATE_def divide_le_0_iff)
  then have r: "?r \<le> 0" unfolding fdiv_def by (rule fl64_nonpos)
  then have "real len / ?r \<le> 0" by (simp add: divide_le_0_iff)
  then have "fdiv (real len) ?r \<le> 0" unfolding fdiv_def by (rule fl64_nonpos)
  then have "fdiv (real len) ?r + 1 / 2 < 1" by linarith
  then have "round (fdiv (real len) ?r) \<le> 0"
    unfolding round_def by (simp add: floor_le_iff)
  then show ?thesis
    by (auto simp add: newLength_def Let_def)
qed

text \<open>
  Claim C6. At the input rate 16000 the output is the input. For a constant input, at
  any input rate, whenever the resampler returns an output every sample of it is that
  constant.
\<close>

theorem downsample_identity_and_constant:
  "downsampleTo16k maxLength buffer 16000 = Inr (map Some buffer)
   \<and> downsampleTo16k maxLength (replicate n c) inputRate
       = (if inputRate = 16000 then Inr (replicate n (Some c))
          else case newLength maxLength n inputRate of
                 Inl e \<Rightarrow> Inl e
               | Inr m \<Rightarrow> Inr (replicate m (Some c)))"
proof (intro conjI)
  show "downsampleTo16k maxLength buffer 16000 = Inr (map Some buffer)"
    by (simp add: downsampleTo16k_def PCM_SAMPLE_RATE_def)
next
  show "downsampleTo16k maxLength (replicate n c) inputRate
       = (if inputRate = 16000 then Inr (replicate n (Some c))
          else case newLength maxLength n inputRate of
                 Inl e \<Rightarrow> Inl e
               | Inr m \<Rightarrow> Inr (replicate m (Some c)))"
  proof (cases "inputRate = 16000")
    case True
    then show ?thesis by (simp add: downsampleTo16k_def PCM_SAMPLE_RATE_def)
  next
    case ne: False
    show ?thesis
    proof (cases "0 < inputRate")
      case True
      let ?r = "fdiv inputRate PCM_SAMPLE_RATE"
      let ?k = "round (fdiv (real n) ?r)"
      let ?m = "nat ?k"
      have r: "0 < ?r" using True by (rule ratio_pos)
      note nl = newLength_pos [OF True, of maxLength n]
      show ?thesis
      proof (cases "int (unat maxLength) < ?k")
        case True
        then show ?thesis using ne nl by (simp add: downsampleTo16k_def PCM_SAMPLE_RATE_def)
      next
        case False
        then have lim: "?k \<le> 2 ^ 48" using alloc_limit_bound [of maxLength] by linarith
        have "map (lerpSample (replicate n c) ?r) [0..<?m] = replicate ?m (Some c)"
        proof (rule nth_equalityI)
          show "length (map (lerpSample (replicate n c) ?r) [0..<?m])
                  = length (replicate ?m (Some c))"
            by simp
        next
          fix i assume "i < length (map (lerpSample (replicate n c) ?r) [0..<?m])"
          then have i: "i < ?m" by simp
          then have "int i < ?k" by linarith
          from lerpSample_constant [OF r this lim] i
          show "map (lerpSample (replicate n c) ?r) [0..<?m] ! i = replicate ?m (Some c) ! i"
            by simp
        qed
        then show ?thesis
          using ne False nl by (simp add: downsampleTo16k_def PCM_SAMPLE_RATE_def)
      qed
    next
      case False
      then have "inputRate \<le> 0" by simp
      from newLength_nonpos [OF this, of maxLength n] show ?thesis
        using ne by (auto simp add: downsampleTo16k_def PCM_SAMPLE_RATE_def)
    qed
  qed
qed

subsection \<open>PCM codec: the asymmetric mapping and the boundary samples\<close>

lemma exp_two_le: "exp (2 :: real) \<le> 9"
proof -
  have "exp (2 :: real) = exp 1 * exp 1" by (simp add: exp_add [symmetric])
  also have "\<dots> \<le> 3 * 3"
    by (rule mult_mono) (simp_all add: exp_le)
  finally show ?thesis by simp
qed

lemma exp_neg_two_sum:
  "(\<Sum>m<16. ((- 2 :: real) ^ m) / fact m) = 86413319 / 638512875"
  by (simp add: eval_nat_numeral lessThan_Suc)

lemma exp_neg_two_remainder: "((- 2 :: real) ^ 16) / fact 16 = 2 / 638512875"
  by (simp add: eval_nat_numeral)

lemma exp_neg_two_bounds:
  "86413319 / 638512875 \<le> exp (- 2 :: real) \<and> exp (- 2 :: real) \<le> 86413337 / 638512875"
proof -
  obtain t :: real where t: "\<bar>t\<bar> \<le> \<bar>- 2\<bar>"
    and e: "exp (- 2) = (\<Sum>m<16. ((- 2) ^ m) / fact m) + (exp t / fact 16) * (- 2) ^ 16"
    using Maclaurin_exp_le [of "- 2" 16] by blast
  have "(exp t / fact 16) * (- 2) ^ 16 = exp t * (((- 2) ^ 16) / fact 16)"
    by simp
  then have e': "exp (- 2) = 86413319 / 638512875 + exp t * (2 / 638512875)"
    using e by (simp only: exp_neg_two_sum exp_neg_two_remainder)
  have "t \<le> 2" using t by simp
  then have "exp t \<le> exp 2" by simp
  then have up: "exp t \<le> 9" using exp_two_le by linarith
  have lo: "0 \<le> exp t" by simp
  from e' up lo show ?thesis by (simp add: field_simps)
qed

lemma tanh_one_bounds: "761594 / 1000000 < tanh (1 :: real) \<and> tanh (1 :: real) < 761595 / 1000000"
proof -
  let ?y = "exp (- 2 :: real)"
  have t: "tanh (1 :: real) = (1 - ?y) / (1 + ?y)"
    using tanh_real_altdef [of 1] by simp
  have p: "0 < 1 + ?y" by (simp add: add_pos_pos)
  from exp_neg_two_bounds have lo: "13533528 / 100000000 < ?y" and up: "?y < 13533531 / 100000000"
    by linarith+
  from up have "761594 * (1 + ?y) < 1000000 * (1 - ?y)" by (simp add: algebra_simps)
  moreover from lo have "1000000 * (1 - ?y) < 761595 * (1 + ?y)" by (simp add: algebra_simps)
  ultimately show ?thesis
    using p by (simp add: t pos_less_divide_eq pos_divide_less_eq)
qed

lemma fl64_32767: "fl64 32767 = 32767" and fl64_32768: "fl64 (- 32768) = - 32768"
  using fl64_of_int [of 32767] fl64_of_int [of "- 32768"] by simp_all

lemma pcm_sample_full_scale_pos:
  "mtanh x = 1 \<Longrightarrow> sint (pcm_sample mtanh (Some x)) = 32767"
  by (simp add: pcm_sample_def toInt16_def fmul_def fl64_32767 js_trunc_def)

lemma pcm_sample_full_scale_neg:
  "mtanh x = - 1 \<Longrightarrow> sint (pcm_sample mtanh (Some x)) = - 32768"
  by (simp add: pcm_sample_def toInt16_def fmul_def fl64_32768 js_trunc_def)

lemma fl64_window:
  assumes "0 < a" and "a \<le> y" and "y \<le> b"
  shows "a * (1 - 1 / 2 ^ 53) \<le> fl64 y \<and> fl64 y \<le> b * (1 + 1 / 2 ^ 53)"
proof -
  have y: "0 \<le> y" using assms by linarith
  from fl64_nonneg_error [OF y] assms show ?thesis
    by (simp add: algebra_simps)
qed

lemma pcm_sample_one:
  assumes "\<bar>mtanh 1 - tanh 1\<bar> \<le> 1 / 2 ^ 30"
  shows "sint (pcm_sample mtanh (Some 1)) = 24955"
proof -
  define s where "s = mtanh 1"
  have d: "s - tanh 1 \<le> 1 / 2 ^ 30" "tanh 1 - s \<le> 1 / 2 ^ 30"
    using assms unfolding s_def by linarith+
  have small: "(1 / 2 ^ 30 :: real) < 1 / 1000000" by simp
  have s: "761593 / 1000000 \<le> s \<and> s \<le> 761596 / 1000000"
    using d small tanh_one_bounds by linarith
  then have y: "761593 / 1000000 * 32767 \<le> s * 32767 \<and> s * 32767 \<le> 761596 / 1000000 * 32767"
    by simp
  have "0 < (761593 / 1000000 * 32767 :: real)" by simp
  from fl64_window [OF this] y
  have "761593 / 1000000 * 32767 * (1 - 1 / 2 ^ 53) \<le> fl64 (s * 32767)
        \<and> fl64 (s * 32767) \<le> 761596 / 1000000 * 32767 * (1 + 1 / 2 ^ 53)"
    by blast
  then have "24955 \<le> fl64 (s * 32767) \<and> fl64 (s * 32767) < 24956" by simp
  then have "\<lfloor>fl64 (s * 32767)\<rfloor> = 24955" and "\<not> fl64 (s * 32767) < 0"
    by (simp_all add: floor_unique)
  moreover have "\<not> s < 0" using s by simp
  ultimately show ?thesis
    by (simp add: pcm_sample_def toInt16_def fmul_def js_trunc_def s_def [symmetric])
qed

lemma pcm_sample_minus_one:
  assumes "\<bar>mtanh (- 1) - tanh (- 1)\<bar> \<le> 1 / 2 ^ 30"
  shows "sint (pcm_sample mtanh (Some (- 1))) = - 24955"
proof -
  define s where "s = mtanh (- 1)"
  have "tanh (- 1 :: real) = - tanh 1" by simp
  then have d: "s + tanh 1 \<le> 1 / 2 ^ 30" "- tanh 1 - s \<le> 1 / 2 ^ 30"
    using assms unfolding s_def by linarith+
  have small: "(1 / 2 ^ 30 :: real) < 1 / 1000000" by simp
  have s: "- (761596 / 1000000) \<le> s \<and> s \<le> - (761593 / 1000000)"
    using d small tanh_one_bounds by linarith
  define y where "y = s * 32768"
  have y: "- (761596 / 1000000 * 32768) \<le> y \<and> y \<le> - (761593 / 1000000 * 32768)"
    using s by (simp add: y_def)
  have yb: "- (2495598 / 100) \<le> y" "y \<le> - (2495587 / 100)"
    using y by linarith+
  have "\<bar>fl64 y - y\<bar> \<le> \<bar>y\<bar> / 2 ^ 53" by (rule fl64_error)
  moreover have "\<bar>y\<bar> / 2 ^ 53 \<le> \<bar>y\<bar> / 2 ^ 30"
    by (intro divide_left_mono) simp_all
  moreover have "\<bar>y\<bar> \<le> 1048576" using yb by linarith
  then have "\<bar>y\<bar> / 2 ^ 30 \<le> 1048576 / 2 ^ 30" by (rule divide_right_mono) simp
  moreover have "(1048576 / 2 ^ 30 :: real) = 1 / 1024" by simp
  ultimately have e: "\<bar>fl64 y - y\<bar> \<le> 1 / 1024" by linarith
  have "- 24956 < fl64 y \<and> fl64 y \<le> - 24955" using e yb by linarith
  then have "\<lceil>fl64 y\<rceil> = - 24955" and "fl64 y < 0"
    by (simp_all add: ceiling_unique)
  moreover have "s < 0" using s by simp
  ultimately show ?thesis
    by (simp add: pcm_sample_def toInt16_def fmul_def js_trunc_def s_def [symmetric]
          y_def [symmetric])
qed

lemma exp_80_large: "2 ^ 56 < exp (80 :: real)"
proof -
  have "5 \<le> exp (2 :: real)"
    using exp_lower_Taylor_quadratic [of "2 :: real"] by simp
  then have "(5 :: real) ^ 40 \<le> exp 2 ^ 40" by (intro power_mono) simp_all
  moreover have "exp (2 :: real) ^ 40 = exp 80"
    using exp_of_nat_mult [of 40 "2 :: real"] by simp
  moreover have "(2 :: real) ^ 56 < 5 ^ 40" by simp
  ultimately show ?thesis by linarith
qed

lemma tanh_40_bounds: "1 - 1 / 2 ^ 55 < tanh (40 :: real) \<and> tanh (40 :: real) < 1"
proof -
  let ?z = "exp (- 80 :: real)"
  have t: "tanh (40 :: real) = (1 - ?z) / (1 + ?z)"
    using tanh_real_altdef [of 40] by simp
  have "?z = 1 / exp 80" by (simp add: exp_minus inverse_eq_divide)
  also have "\<dots> < 1 / 2 ^ 56"
    using exp_80_large by (intro divide_strict_left_mono) simp_all
  finally have z: "?z < 1 / 2 ^ 56" .
  have z0: "0 < ?z" by simp
  have p: "0 < 1 + ?z" using z0 by linarith
  have "(1 - 1 / 2 ^ 55) * (1 + ?z) < 1 - ?z"
  proof -
    have "(1 - 1 / 2 ^ 55) * (1 + ?z) \<le> 1 + ?z - 1 / 2 ^ 55" using z0 by (simp add: algebra_simps)
    moreover have "(1 / 2 ^ 55 :: real) = 2 * (1 / 2 ^ 56)" by simp
    ultimately show ?thesis using z by linarith
  qed
  then have "1 - 1 / 2 ^ 55 < tanh (40 :: real)"
    using p by (simp add: t pos_less_divide_eq)
  then show ?thesis by (simp add: tanh_real_lt_1)
qed

lemma fl64_tanh_40: "fl64 (tanh 40) = 1"
proof -
  let ?x = "tanh (40 :: real)"
  note b = tanh_40_bounds
  have h: "(1 / 2 :: real) < 1 - 1 / 2 ^ 55" by simp
  have x1: "1 / 2 \<le> ?x" using b h by linarith
  have 1: "2 powi (- 1) \<le> \<bar>?x\<bar>" using x1 by (simp add: power_int_minus)
  have 2: "\<bar>?x\<bar> < 2 powi (- 1 + 1)" using b x1 by simp
  have e: "?x / 2 powi (- 1 - 52) = ?x * 2 ^ 53" by (simp add: power_int_minus)
  have "(1 - 1 / 2 ^ 55) * 2 ^ 53 < ?x * 2 ^ 53"
    using b by (intro mult_strict_right_mono) simp_all
  moreover have "((1 - 1 / 2 ^ 55) * 2 ^ 53 :: real) = 2 ^ 53 - 1 / 4" by simp
  ultimately have 3: "of_int (2 ^ 53) - 1 / 2 < ?x / 2 powi (- 1 - 52)"
    unfolding e by simp
  have "?x * 2 ^ 53 < 1 * 2 ^ 53" using b by (intro mult_strict_right_mono) simp_all
  then have 4: "?x / 2 powi (- 1 - 52) < of_int (2 ^ 53) + 1 / 2"
    unfolding e by simp
  have "fl64 ?x = of_int (2 ^ 53) * 2 powi (- 1 - 52)"
    using 1 2 3 4 by (rule fl64_eval_between)
  then show ?thesis by (simp add: power_int_minus)
qed

lemma fl64_tanh_minus_40: "fl64 (tanh (- 40)) = - 1"
  using fl64_tanh_40 by (simp add: fl64_minus)

lemma fl64_tanh_accurate: "\<bar>fl64 (tanh x) - tanh x\<bar> \<le> 1 / 2 ^ 30" for x :: real
proof -
  have "\<bar>fl64 (tanh x) - tanh x\<bar> \<le> \<bar>tanh x\<bar> / 2 ^ 53" by (rule fl64_error)
  moreover have "\<bar>tanh x\<bar> \<le> 1"
    using tanh_real_lt_1 [of x] tanh_real_gt_neg1 [of x] by linarith
  then have "\<bar>tanh x\<bar> / 2 ^ 53 \<le> 1 / 2 ^ 53" by (rule divide_right_mono) simp
  moreover have "(1 / 2 ^ 53 :: real) \<le> 1 / 2 ^ 30" by simp
  ultimately show ?thesis by linarith
qed

lemma sint16_of_int:
  assumes "- 32768 \<le> k" and "k \<le> 32767"
  shows "sint (word_of_int k :: 16 word) = k"
proof -
  have "signed_take_bit 15 k = k"
    using assms by (intro signed_take_bit_int_eq_self) simp_all
  then show ?thesis by (simp add: sint_sbintrunc')
qed

lemma pcm_sample_nonneg:
  assumes "0 \<le> mtanh x" and "mtanh x \<le> 1"
  shows "sint (pcm_sample mtanh (Some x)) = \<lfloor>fmul (mtanh x) 32767\<rfloor>"
proof -
  define y where "y = fmul (mtanh x) 32767"
  have a: "0 \<le> mtanh x * 32767" and b: "mtanh x * 32767 \<le> 32767" using assms by simp_all
  have "fl64 0 \<le> y" unfolding y_def fmul_def using a by (rule fl64_mono)
  moreover have "y \<le> fl64 32767" unfolding y_def fmul_def using b by (rule fl64_mono)
  ultimately have y: "0 \<le> y" "y \<le> 32767" by (simp_all add: fl64_zero fl64_32767)
  then have f: "0 \<le> \<lfloor>y\<rfloor>" "\<lfloor>y\<rfloor> \<le> 32767" by (simp_all add: floor_le_iff) 
  have "sint (word_of_int \<lfloor>y\<rfloor> :: 16 word) = \<lfloor>y\<rfloor>"
    using f by (intro sint16_of_int) simp_all
  moreover have "\<not> mtanh x < 0" "\<not> y < 0" using assms y by simp_all
  ultimately show ?thesis
    by (simp add: pcm_sample_def toInt16_def js_trunc_def y_def [symmetric])
qed

lemma pcm_sample_neg:
  assumes "- 1 \<le> mtanh x" and "mtanh x < 0"
  shows "sint (pcm_sample mtanh (Some x)) = \<lceil>fmul (mtanh x) 32768\<rceil>"
proof -
  define y where "y = fmul (mtanh x) 32768"
  have "- 32768 \<le> mtanh x * 32768" and n: "mtanh x * 32768 < 0" using assms by simp_all
  then have "fl64 (- 32768) \<le> y"
    unfolding y_def fmul_def by (intro fl64_mono) simp
  moreover have y0: "y < 0" unfolding y_def fmul_def using n by (rule fl64_neg)
  ultimately have y: "- 32768 \<le> y" "y < 0" by (simp_all add: fl64_32768)
  then have f: "- 32768 \<le> \<lceil>y\<rceil>" "\<lceil>y\<rceil> \<le> 0" by (simp_all add: le_ceiling_iff ceiling_le_iff)
  have "sint (word_of_int \<lceil>y\<rceil> :: 16 word) = \<lceil>y\<rceil>"
    using f by (intro sint16_of_int) simp_all
  then show ?thesis
    using assms(2) y0 by (simp add: pcm_sample_def toInt16_def js_trunc_def y_def [symmetric])
qed

text \<open>
  Claim C2, as amended. \<open>createBlob\<close> applies the asymmetric full-scale mapping to the
  soft-clipped sample \<open>Math.tanh(data[i])\<close>, not to the input sample: a clipped value in
  \<open>[0, 1]\<close> is multiplied by 32767, a clipped value in \<open>[-1, 0)\<close> by 32768, and the
  double product is stored truncated towards zero. A clipped value of 1 is stored as
  32767 and a clipped value of -1 as -32768 (values that \<open>Math.tanh\<close> returns for inputs
  of large magnitude only). The boundary input samples 1.0 and -1.0 are clipped to about
  0.76159 and -0.76159 and stored as 24955 and -24955, for every \<open>Math.tanh\<close> that is
  accurate to \<open>2^-30\<close> at these two inputs.
\<close>

theorem createBlob_boundary_samples:
  "(0 \<le> mtanh x \<and> mtanh x \<le> 1 \<longrightarrow>
      sint (pcm_sample mtanh (Some x)) = \<lfloor>fmul (mtanh x) 32767\<rfloor>)
   \<and> (- 1 \<le> mtanh x \<and> mtanh x < 0 \<longrightarrow>
      sint (pcm_sample mtanh (Some x)) = \<lceil>fmul (mtanh x) 32768\<rceil>)
   \<and> (mtanh x = 1 \<longrightarrow> sint (pcm_sample mtanh (Some x)) = 32767)
   \<and> (mtanh x = - 1 \<longrightarrow> sint (pcm_sample mtanh (Some x)) = - 32768)
   \<and> (\<bar>mtanh 1 - tanh 1\<bar> \<le> 1 / 2 ^ 30 \<and> \<bar>mtanh (- 1) - tanh (- 1)\<bar> \<le> 1 / 2 ^ 30 \<longrightarrow>
        map sint (createBlob_int16 mtanh [Some 1, Some (- 1)]) = [24955, - 24955])"
proof (intro conjI impI)
  show "sint (pcm_sample mtanh (Some x)) = \<lfloor>fmul (mtanh x) 32767\<rfloor>"
    if "0 \<le> mtanh x \<and> mtanh x \<le> 1"
    using that by (intro pcm_sample_nonneg) simp_all
  show "sint (pcm_sample mtanh (Some x)) = \<lceil>fmul (mtanh x) 32768\<rceil>"
    if "- 1 \<le> mtanh x \<and> mtanh x < 0"
    using that by (intro pcm_sample_neg) simp_all
  show "sint (pcm_sample mtanh (Some x)) = 32767" if "mtanh x = 1"
    using that by (rule pcm_sample_full_scale_pos)
  show "sint (pcm_sample mtanh (Some x)) = - 32768" if "mtanh x = - 1"
    using that by (rule pcm_sample_full_scale_neg)
  show "map sint (createBlob_int16 mtanh [Some 1, Some (- 1)]) = [24955, - 24955]"
    if "\<bar>mtanh 1 - tanh 1\<bar> \<le> 1 / 2 ^ 30 \<and> \<bar>mtanh (- 1) - tanh (- 1)\<bar> \<le> 1 / 2 ^ 30"
    using that by (simp add: createBlob_int16_def pcm_sample_one pcm_sample_minus_one)
qed

theorem createBlob_boundary_samples_witness:
  "sint (pcm_sample (\<lambda>x. fl64 (tanh x)) (Some 40)) = 32767
   \<and> sint (pcm_sample (\<lambda>x. fl64 (tanh x)) (Some (- 40))) = - 32768
   \<and> map sint (createBlob_int16 (\<lambda>x. fl64 (tanh x)) [Some 1, Some (- 1)]) = [24955, - 24955]"
  using createBlob_boundary_samples [of "\<lambda>x. fl64 (tanh x)" 40]
    createBlob_boundary_samples [of "\<lambda>x. fl64 (tanh x)" "- 40"]
    fl64_tanh_40 fl64_tanh_minus_40 fl64_tanh_accurate [of 1] fl64_tanh_accurate [of "- 1"]
  by simp

text \<open>
  Claim C2 as stated asks for 32767 and -32768 at the inputs 1.0 and -1.0. With the
  correctly rounded hyperbolic tangent the stored values are 24955 and -24955.
\<close>

theorem createBlob_boundary_counterexample:
  "map sint (createBlob_int16 (\<lambda>x. fl64 (tanh x)) [Some 1, Some (- 1)]) \<noteq> [32767, - 32768]"
proof -
  have "sint (pcm_sample (\<lambda>x. fl64 (tanh x)) (Some 1)) = 24955"
    using fl64_tanh_accurate [of 1] by (intro pcm_sample_one)
  then show ?thesis by (simp add: createBlob_int16_def)
qed

subsection \<open>Base64 round trip\<close>

lemma b64_alphabet_length: "length b64_alphabet = 64"
  by (simp add: b64_alphabet_def)

lemma b64_alphabet_distinct: "distinct b64_alphabet"
  by (simp add: b64_alphabet_def)

lemma b64_index_char: "i < 64 \<Longrightarrow> b64_index (b64_char i) = Some i"
  using map_of_zip_nth [of b64_alphabet "[0..<64]" i]
  by (simp add: b64_index_def b64_char_def b64_alphabet_length b64_alphabet_distinct)

lemma b64_char_in_alphabet: "i < 64 \<Longrightarrow> b64_char i \<in> set b64_alphabet"
  by (simp add: b64_char_def b64_alphabet_length)

lemma alphabet_not_pad: "c \<in> set b64_alphabet \<Longrightarrow> c \<noteq> CHR ''=''"
  by (auto simp add: b64_alphabet_def)

lemma alphabet_not_whitespace: "c \<in> set b64_alphabet \<Longrightarrow> \<not> ascii_whitespace c"
  by (auto simp add: b64_alphabet_def ascii_whitespace_def)

lemma pad_not_whitespace: "\<not> ascii_whitespace (CHR ''='')"
  by (simp add: ascii_whitespace_def)

lemma sextets_bound:
  "\<forall>b \<in> set bs. b < 256 \<Longrightarrow> \<forall>x \<in> set (sextets bs). x < 64"
proof (induction bs rule: sextets.induct)
  case (1 a b c rest)
  then show ?case by (auto simp add: less_mult_imp_div_less)
next
  case (2 a b)
  then show ?case by auto
next
  case (3 a)
  then show ?case by auto
next
  case 4
  then show ?case by simp
qed

lemma pack_div: "y < n \<Longrightarrow> (x * n + y) div n = x" for x y n :: nat
  by simp

lemma pack_mod: "y < n \<Longrightarrow> (x * n + y) mod n = y" for x y n :: nat
  by simp

lemma unsextets_sextets:
  "\<forall>b \<in> set bs. b < 256 \<Longrightarrow> unsextets (sextets bs) = bs"
proof (induction bs rule: sextets.induct)
  case (1 a b c rest)
  then have "b < 16 * 16" "c < 4 * 64" by simp_all
  then have b: "b div 16 < 16" and c: "c div 64 < 4"
    by (simp_all only: less_mult_imp_div_less)
  have "a div 4 * 4 + (a mod 4 * 16 + b div 16) div 16 = a"
    by (simp only: pack_div [OF b] div_mult_mod_eq)
  moreover have "(a mod 4 * 16 + b div 16) mod 16 * 16 + (b mod 16 * 4 + c div 64) div 4 = b"
    by (simp only: pack_mod [OF b] pack_div [OF c] div_mult_mod_eq)
  moreover have "(b mod 16 * 4 + c div 64) mod 4 * 64 + c mod 64 = c"
    by (simp only: pack_mod [OF c] div_mult_mod_eq)
  ultimately show ?case using 1 by simp
next
  case (2 a b)
  then have "b < 16 * 16" by simp
  then have b: "b div 16 < 16" by (simp only: less_mult_imp_div_less)
  have "a div 4 * 4 + (a mod 4 * 16 + b div 16) div 16 = a"
    by (simp only: pack_div [OF b] div_mult_mod_eq)
  moreover have "(a mod 4 * 16 + b div 16) mod 16 * 16 + (b mod 16 * 4) div 4 = b"
    by (simp only: pack_mod [OF b] nonzero_mult_div_cancel_right div_mult_mod_eq)
  ultimately show ?case by simp
next
  case (3 a)
  have "a div 4 * 4 + (a mod 4 * 16) div 16 = a" by simp
  then show ?case by simp
next
  case 4
  then show ?case by simp
qed

lemma last_not_pad:
  "\<forall>c \<in> set body. c \<noteq> CHR ''='' \<Longrightarrow> \<not> (body \<noteq> [] \<and> last body = CHR ''='')"
  using last_in_set [of body] by blast

lemma strip_padding_none:
  assumes a: "\<forall>c \<in> set body. c \<noteq> CHR ''=''"
  shows "strip_padding body = body"
proof -
  have "\<not> (length body mod 4 = 0 \<and> body \<noteq> [] \<and> last body = CHR ''='')"
    using last_not_pad [OF a] by blast
  then show ?thesis
    unfolding strip_padding_def by (simp only: if_False)
qed

lemma strip_padding_one:
  assumes a: "\<forall>c \<in> set body. c \<noteq> CHR ''=''" and l: "length body mod 4 = 3"
  shows "strip_padding (body @ [CHR ''='']) = body"
proof -
  have "length (body @ [CHR ''='']) = Suc (length body)" by simp
  then have "length (body @ [CHR ''='']) mod 4 = 0" using l by (simp only: mod_Suc) simp
  then have c: "length (body @ [CHR ''='']) mod 4 = 0 \<and> body @ [CHR ''=''] \<noteq> []
                \<and> last (body @ [CHR ''='']) = CHR ''=''"
    by simp
  have bl: "butlast (body @ [CHR ''='']) = body" by (rule butlast_snoc)
  show ?thesis
    unfolding strip_padding_def Let_def
    using last_not_pad [OF a] by (simp only: c bl if_True if_False) simp
qed

lemma strip_padding_two:
  assumes a: "\<forall>c \<in> set body. c \<noteq> CHR ''=''" and l: "length body mod 4 = 2"
  shows "strip_padding (body @ [CHR ''='', CHR ''='']) = body"
proof -
  let ?d1 = "body @ [CHR ''='']"
  have e: "body @ [CHR ''='', CHR ''=''] = ?d1 @ [CHR ''='']" by simp
  have "length (?d1 @ [CHR ''='']) = Suc (Suc (length body))" by simp
  then have "length (?d1 @ [CHR ''='']) mod 4 = 0" using l by (simp only: mod_Suc) simp
  then have c: "length (?d1 @ [CHR ''='']) mod 4 = 0 \<and> ?d1 @ [CHR ''=''] \<noteq> []
                \<and> last (?d1 @ [CHR ''='']) = CHR ''=''"
    by simp
  have bl: "butlast (?d1 @ [CHR ''='']) = ?d1" by (rule butlast_snoc)
  have c1: "?d1 \<noteq> [] \<and> last ?d1 = CHR ''=''" by simp
  have bl1: "butlast ?d1 = body" by (rule butlast_snoc)
  show ?thesis
    unfolding strip_padding_def Let_def e
    by (simp only: c bl c1 bl1 if_True) simp
qed

lemma sextets_length_mod:
  "length (sextets bs) mod 4 = (if length bs mod 3 = 0 then 0 else length bs mod 3 + 1)"
  by (induction bs rule: sextets.induct) simp_all

lemma of_char_bound: "\<forall>b \<in> set (map of_char s). b < (256 :: nat)"
  by simp

lemma b64_body_alphabet: "\<forall>c \<in> set (b64_body s). c \<in> set b64_alphabet"
  using sextets_bound [OF of_char_bound, of s]
  by (auto simp add: b64_body_def b64_char_in_alphabet)

lemma b64_body_length_mod:
  "length (b64_body s) mod 4 = (if length s mod 3 = 0 then 0 else length s mod 3 + 1)"
  using sextets_length_mod [of "map of_char s"] by (simp add: b64_body_def)

lemma btoa_cases:
  "(length s mod 3 = 0 \<and> btoa s = b64_body s)
   \<or> (length s mod 3 = 1 \<and> btoa s = b64_body s @ ''=='')
   \<or> (length s mod 3 = 2 \<and> btoa s = b64_body s @ ''='')"
proof -
  have "length s mod 3 = 0 \<or> length s mod 3 = 1 \<or> length s mod 3 = 2" by linarith
  then show ?thesis
    by (auto simp add: btoa_def b64_body_def numeral_2_eq_2)
qed

lemma strip_padding_btoa: "strip_padding (btoa s) = b64_body s"
proof -
  have np: "\<forall>c \<in> set (b64_body s). c \<noteq> CHR ''=''"
    using b64_body_alphabet [of s] alphabet_not_pad by blast
  from btoa_cases [of s] show ?thesis
  proof (elim disjE conjE)
    assume "btoa s = b64_body s"
    then show ?thesis using strip_padding_none [OF np] by simp
  next
    assume "length s mod 3 = 1" and b: "btoa s = b64_body s @ ''==''"
    then have "length (b64_body s) mod 4 = 2" by (simp add: b64_body_length_mod)
    from strip_padding_two [OF np this] b show ?thesis by simp
  next
    assume "length s mod 3 = 2" and b: "btoa s = b64_body s @ ''=''"
    then have "length (b64_body s) mod 4 = 3" by (simp add: b64_body_length_mod)
    from strip_padding_one [OF np this] b show ?thesis by simp
  qed
qed

lemma btoa_no_whitespace: "filter (\<lambda>c. \<not> ascii_whitespace c) (btoa s) = btoa s"
proof -
  have "\<forall>c \<in> set (b64_body s). \<not> ascii_whitespace c"
    using b64_body_alphabet [of s] alphabet_not_whitespace by blast
  then have "\<forall>c \<in> set (btoa s). \<not> ascii_whitespace c"
    using btoa_cases [of s] pad_not_whitespace by auto
  then show ?thesis by simp
qed

lemma b64_body_indices:
  "map (\<lambda>c. the (b64_index c)) (b64_body s) = sextets (map of_char s)"
proof -
  have "\<forall>x \<in> set (sextets (map of_char s)). x < 64"
    using sextets_bound [OF of_char_bound] .
  then have "map (\<lambda>c. the (b64_index c)) (map b64_char (sextets (map of_char s)))
             = sextets (map of_char s)"
    by (induction "sextets (map of_char s)") (simp_all add: b64_index_char map_idI)
  then show ?thesis by (simp add: b64_body_def)
qed

lemma atob_btoa: "atob (btoa s) = Inr s"
proof -
  have l: "length (b64_body s) mod 4 \<noteq> 1"
    by (simp add: b64_body_length_mod)
  have ix: "\<not> (\<exists>c \<in> set (b64_body s). b64_index c = None)"
  proof
    assume "\<exists>c \<in> set (b64_body s). b64_index c = None"
    then obtain c where c: "c \<in> set (b64_body s)" and n: "b64_index c = None" by blast
    from c obtain x where "x \<in> set (sextets (map of_char s))" and cx: "c = b64_char x"
      by (auto simp add: b64_body_def)
    with sextets_bound [OF of_char_bound, of s] have "x < 64" by blast
    with n cx show False by (simp add: b64_index_char)
  qed
  have "map char_of (unsextets (sextets (map of_char s :: nat list))) = s"
    by (simp add: unsextets_sextets [OF of_char_bound] map_idI)
  then show ?thesis
    using l ix
    by (simp add: atob_def btoa_no_whitespace strip_padding_btoa Let_def b64_body_indices)
qed

lemma unat_byte_mod: "unat b mod 256 = unat b" for b :: "8 word"
proof -
  have "unat b < 256" using unsigned_less [of b, where 'a = nat] by simp
  then show ?thesis by simp
qed

lemma bytes_chars_roundtrip:
  "map (\<lambda>c. (of_nat (of_char c) :: 8 word)) (map (\<lambda>b. char_of (unat b)) bs) = bs"
  by (induction bs) (simp_all add: unat_byte_mod)

text \<open>
  Claim C10. For every byte array, decoding its encoding succeeds and returns the same
  byte array.
\<close>

theorem decode_encode_roundtrip: "decode (encode b) = Inr b"
  by (simp only: decode_def encode_def atob_btoa sum.case bytes_chars_roundtrip)

subsection \<open>The per-block callback\<close>

lemma noiseGate_length: "length (noiseGate th block) = length block"
  by (simp add: noiseGate_def split: option.split)

lemma newLength_within_limit:
  assumes rate: "1 \<le> inputRate" and fit: "16001 * len \<le> unat mx"
  shows "round (fdiv (real len) (fdiv inputRate PCM_SAMPLE_RATE)) \<le> int (unat mx)"
proof -
  define r where "r = fdiv inputRate PCM_SAMPLE_RATE"
  define t where "t = real len / r"
  have "0 \<le> inputRate / PCM_SAMPLE_RATE" using rate by (simp add: PCM_SAMPLE_RATE_def)
  from fdiv_nonneg_error [OF this]
  have "inputRate / PCM_SAMPLE_RATE * (1 - 1 / 2 ^ 53) \<le> r" by (simp add: r_def)
  moreover have "1 / 16000 \<le> inputRate / PCM_SAMPLE_RATE"
    using rate by (simp add: PCM_SAMPLE_RATE_def)
  ultimately have rc: "(1 - 1 / 2 ^ 53) / 16000 \<le> r" by (simp add: algebra_simps)
  have "(0 :: real) < (1 - 1 / 2 ^ 53) / 16000" by simp
  with rc have r0: "0 < r" by linarith
  have "t \<le> real len / ((1 - 1 / 2 ^ 53) / 16000)"
    unfolding t_def using rc by (intro divide_left_mono) (simp_all add: r0)
  then have tb: "t * (1 - 1 / 2 ^ 53) \<le> 16000 * real len" by (simp add: field_simps)
  have t0: "0 \<le> t" using r0 by (simp add: t_def)
  have q: "fdiv (real len) r \<le> t * (1 + 1 / 2 ^ 53)"
    using fdiv_nonneg_error [of "real len" r] t0 by (simp add: t_def)
  have "of_int (round (fdiv (real len) r)) \<le> fdiv (real len) r + 1 / 2"
    using round_bounds [of "fdiv (real len) r"] by simp
  with q tb t0 have "real_of_int (round (fdiv (real len) r)) < 16001 * real len + 1"
    by (simp add: algebra_simps)
  then have "real_of_int (round (fdiv (real len) r)) < real_of_int (16001 * int len + 1)"
    by simp
  then have "round (fdiv (real len) r) < 16001 * int len + 1" by (simp only: of_int_less_iff)
  moreover have "16001 * int len \<le> int (unat mx)" using fit by linarith
  ultimately show ?thesis unfolding r_def by linarith
qed

lemma downsample_total:
  assumes "1 \<le> rate" and "16001 * length xs \<le> unat mx"
  shows "\<exists>d. downsampleTo16k mx xs rate = Inr d"
proof -
  have p: "0 < rate" using assms(1) by simp
  show ?thesis
    using newLength_within_limit [OF assms] newLength_pos [OF p, of mx "length xs"]
    by (simp add: downsampleTo16k_def)
qed

text \<open>
  Claim C8. When the active flag is false, or the processor or the audio context has
  been torn down, the callback drops the block: the state and the block are unchanged
  and nothing is handed to the session. Otherwise, at a sample rate of at least 1 Hz
  and with a block whose resampled length the engine can allocate, the callback returns
  normally. A send that throws, or a rejected session promise, leaves the state as it
  was; in every case the continuation returns normally and changes neither the pending
  reconnect timers, nor the reconnect flag, the active flag or the status.
\<close>

theorem audio_callback_drop_and_send_failure:
  "(\<not> isLiveRef st \<or> \<not> processorRef st \<or> \<not> audioContextRef st \<longrightarrow>
      onaudioprocess mtanh maxLength th rate block st = Inr (st, block, None))
   \<and> (1 \<le> rate \<and> 16001 * length block \<le> unat maxLength \<longrightarrow>
        (\<exists>g b. onaudioprocess mtanh maxLength th rate block st = Inr (st, g, b)))
   \<and> sendContinuation fulfilled True pcmBlob st = Inr st
   \<and> sendContinuation False throws pcmBlob st = Inr st
   \<and> (\<exists>st'. sendContinuation fulfilled throws pcmBlob st = Inr st'
         \<and> reconnectTimers st' = reconnectTimers st
         \<and> shouldReconnectRef st' = shouldReconnectRef st
         \<and> isLiveRef st' = isLiveRef st
         \<and> status st' = status st)"
proof (intro conjI impI)
  show "onaudioprocess mtanh maxLength th rate block st = Inr (st, block, None)"
    if "\<not> isLiveRef st \<or> \<not> processorRef st \<or> \<not> audioContextRef st"
    using that by (auto simp add: onaudioprocess_def)
  show "\<exists>g b. onaudioprocess mtanh maxLength th rate block st = Inr (st, g, b)"
    if "1 \<le> rate \<and> 16001 * length block \<le> unat maxLength"
    using downsample_total [of rate "noiseGate th block" maxLength] that
    by (auto simp add: onaudioprocess_def Let_def noiseGate_length)
  show "sendContinuation fulfilled True pcmBlob st = Inr st"
    by (simp add: sendContinuation_def sendRealtimeInput_def)
  show "sendContinuation False throws pcmBlob st = Inr st"
    by (simp add: sendContinuation_def)
  show "\<exists>st'. sendContinuation fulfilled throws pcmBlob st = Inr st'
         \<and> reconnectTimers st' = reconnectTimers st
         \<and> shouldReconnectRef st' = shouldReconnectRef st
         \<and> isLiveRef st' = isLiveRef st
         \<and> status st' = status st"
    by (simp add: sendContinuation_def sendRealtimeInput_def)
qed

theorem audio_callback_drop_and_send_failure_witness:
  "onaudioprocess (\<lambda>x. fl64 (tanh x)) 4294967295 (1 / 100) 48000 [1, 1] initial_state
     = Inr (initial_state, [1, 1], None)
   \<and> (\<exists>g b. onaudioprocess (\<lambda>x. fl64 (tanh x)) 4294967295 (1 / 100) 48000 [1, 1]
                (connect (Some ''key'') (SetupOk NoSystemStream) initial_state)
              = Inr (connect (Some ''key'') (SetupOk NoSystemStream) initial_state, g, b))
   \<and> sendContinuation True True (createBlob (\<lambda>x. fl64 (tanh x)) [])
         (connect (Some ''key'') (SetupOk NoSystemStream) initial_state)
       = Inr (connect (Some ''key'') (SetupOk NoSystemStream) initial_state)"
proof -
  have f: "16001 * length [1, 1 :: real] \<le> unat (4294967295 :: alloc_limit)" by simp
  show ?thesis
    using f
      audio_callback_drop_and_send_failure
        [of initial_state "\<lambda>x. fl64 (tanh x)" 4294967295 "1 / 100" 48000 "[1, 1]" True "createBlob (\<lambda>x. fl64 (tanh x)) []"]
      audio_callback_drop_and_send_failure
        [of "connect (Some ''key'') (SetupOk NoSystemStream) initial_state" "\<lambda>x. fl64 (tanh x)" 4294967295
            "1 / 100" 48000 "[1, 1]" True "createBlob (\<lambda>x. fl64 (tanh x)) []"]
    by (simp add: initial_state_def)
qed

end
